theory Spec2Isabelle
  imports Complex_Main "HOL-Library.Char_ord" "HOL-Library.List_Lexorder" "HOL-Library.AList"
begin

section \<open>Strings\<close>

text \<open>
  The scripts work on Python \<open>str\<close> values. A string is modelled as a list of
  characters whose code points lie below 256; on this range the character classes of
  Python 3 are the ones written out below: \<open>str.isspace\<close>, \<open>str.strip\<close>,
  \<open>str.split\<close> and the regular-expression class \<open>\s\<close> all use the same
  whitespace set, \<open>\d\<close> is the ten ASCII digits, and \<open>[A-Z]\<close> the ASCII capitals.
  Strings are compared by code point, which is the order of \<open>Char_ord\<close> lifted to
  lists by \<open>List_Lexorder\<close>.
\<close>

definition is_space :: "char \<Rightarrow> bool" where
  "is_space c \<longleftrightarrow> c \<in> set [CHR 0x09, CHR 0x0A, CHR 0x0B, CHR 0x0C, CHR 0x0D,
     CHR 0x1C, CHR 0x1D, CHR 0x1E, CHR 0x1F, CHR 0x20, CHR 0x85, CHR 0xA0]"

definition is_digit :: "char \<Rightarrow> bool" where
  "is_digit c \<longleftrightarrow> c \<in> set ''0123456789''"

definition is_upper :: "char \<Rightarrow> bool" where
  "is_upper c \<longleftrightarrow> c \<in> set ''ABCDEFGHIJKLMNOPQRSTUVWXYZ''"

text \<open>\<open>s.strip()\<close>\<close>

definition strip :: "string \<Rightarrow> string" where
  "strip s = rev (dropWhile is_space (rev (dropWhile is_space s)))"

text \<open>\<open>s.split()\<close>: the maximal runs of non-whitespace characters.\<close>

fun split_ws_from :: "string \<Rightarrow> string \<Rightarrow> string list" where
  "split_ws_from cur [] = (if cur = [] then [] else [cur])"
| "split_ws_from cur (c # cs) =
     (if is_space c then (if cur = [] then [] else [cur]) @ split_ws_from [] cs
      else split_ws_from (cur @ [c]) cs)"

definition split_ws :: "string \<Rightarrow> string list" where
  "split_ws s = split_ws_from [] s"

text \<open>\<open>s.split(d)\<close> for a one-character separator: always at least one piece.\<close>

fun split_on :: "char \<Rightarrow> string \<Rightarrow> string list" where
  "split_on d [] = [[]]"
| "split_on d (c # cs) =
     (if c = d then [] # split_on d cs
      else (case split_on d cs of [] \<Rightarrow> [[c]] | p # ps \<Rightarrow> (c # p) # ps))"

text \<open>\<open>sep.join(parts)\<close>\<close>

fun join :: "string \<Rightarrow> string list \<Rightarrow> string" where
  "join sep [] = []"
| "join sep [x] = x"
| "join sep (x # y # ys) = x @ sep @ join sep (y # ys)"

text \<open>\<open>s.startswith(p)\<close> and \<open>p in s\<close>\<close>

fun startswith :: "string \<Rightarrow> string \<Rightarrow> bool" where
  "startswith s [] = True"
| "startswith [] (p # ps) = False"
| "startswith (c # cs) (p # ps) = (c = p \<and> startswith cs ps)"

fun contains :: "string \<Rightarrow> string \<Rightarrow> bool" where
  "contains [] p = (p = [])"
| "contains (c # cs) p = (startswith (c # cs) p \<or> contains cs p)"

text \<open>
  \<open>int(s)\<close> on a string of ASCII digits. The scripts call it only on the first four
  characters of a string that has just matched \<open>\d{4}\<close>, where it cannot raise.
\<close>

definition digit_val :: "char \<Rightarrow> nat" where
  "digit_val c = of_char c - 48"

definition int_of_digits :: "string \<Rightarrow> nat" where
  "int_of_digits s = foldl (\<lambda>a c. 10 * a + digit_val c) 0 s"

section \<open>Regular expressions\<close>

text \<open>
  The patterns of the scripts are sequences of single-character atoms with a quantifier,
  capture groups without nesting, and the end anchor. The matcher backtracks in the
  priority order of Python's \<open>re\<close>: a greedy quantifier tries the longer repetition
  first, a lazy one the shorter. \<open>Eos\<close> is \<open>$\<close> without the multi-line flag: the end of
  the string, or the position before a newline that ends the string.
\<close>

datatype quant = One | Star | Plus | StarLazy | PlusLazy | Rep nat

datatype rx_item = Atom "char \<Rightarrow> bool" quant | GOpen | GClose | Eos

definition push :: "char \<Rightarrow> string option \<Rightarrow> string option" where
  "push c cur = map_option (\<lambda>b. b @ [c]) cur"

fun rx_run :: "rx_item list \<Rightarrow> string option \<Rightarrow> string list \<Rightarrow> string \<Rightarrow> string list option" where
  "rx_run [] cur gs s = Some gs"
| "rx_run (Eos # r) cur gs s =
     (if s = [] \<or> s = [CHR 0x0A] then rx_run r cur gs s else None)"
| "rx_run (GOpen # r) cur gs s = rx_run r (Some []) gs s"
| "rx_run (GClose # r) cur gs s =
     rx_run r None (gs @ [case cur of None \<Rightarrow> [] | Some b \<Rightarrow> b]) s"
| "rx_run (Atom p One # r) cur gs s =
     (case s of [] \<Rightarrow> None
      | c # cs \<Rightarrow> if p c then rx_run r (push c cur) gs cs else None)"
| "rx_run (Atom p (Rep 0) # r) cur gs s = rx_run r cur gs s"
| "rx_run (Atom p (Rep (Suc n)) # r) cur gs s =
     (case s of [] \<Rightarrow> None
      | c # cs \<Rightarrow> if p c then rx_run (Atom p (Rep n) # r) (push c cur) gs cs else None)"
| "rx_run (Atom p Star # r) cur gs s =
     (case s of [] \<Rightarrow> rx_run r cur gs s
      | c # cs \<Rightarrow>
          if p c then
            (case rx_run (Atom p Star # r) (push c cur) gs cs of
               Some g \<Rightarrow> Some g
             | None \<Rightarrow> rx_run r cur gs s)
          else rx_run r cur gs s)"
| "rx_run (Atom p Plus # r) cur gs s =
     (case s of [] \<Rightarrow> None
      | c # cs \<Rightarrow> if p c then rx_run (Atom p Star # r) (push c cur) gs cs else None)"
| "rx_run (Atom p StarLazy # r) cur gs s =
     (case rx_run r cur gs s of
        Some g \<Rightarrow> Some g
      | None \<Rightarrow>
          (case s of [] \<Rightarrow> None
           | c # cs \<Rightarrow>
               if p c then rx_run (Atom p StarLazy # r) (push c cur) gs cs else None))"
| "rx_run (Atom p PlusLazy # r) cur gs s =
     (case s of [] \<Rightarrow> None
      | c # cs \<Rightarrow> if p c then rx_run (Atom p StarLazy # r) (push c cur) gs cs else None)"

text \<open>\<open>pattern.match(s)\<close> tries the start of the string only; the result is the list of
  captured groups, \<open>group(1)\<close> first.\<close>

definition rx_match :: "rx_item list \<Rightarrow> string \<Rightarrow> string list option" where
  "rx_match items s = rx_run items None [] s"

text \<open>\<open>pattern.search(s)\<close> tries every start position from the left.\<close>

fun rx_search :: "rx_item list \<Rightarrow> string \<Rightarrow> string list option" where
  "rx_search items [] = rx_run items None [] []"
| "rx_search items (c # cs) =
     (case rx_run items None [] (c # cs) of
        Some g \<Rightarrow> Some g
      | None \<Rightarrow> rx_search items cs)"

definition lit :: "string \<Rightarrow> rx_item list" where
  "lit s = map (\<lambda>c. Atom (\<lambda>x. x = c) One) s"

text \<open>\<open>_BORN_RE = re.compile(r",\s*([^,]+?)\s*\(([A-Z]+)\)\s*$")\<close>, the same in
  \<open>olympians-by-state.py\<close>, \<open>filter-winter.py\<close> and \<open>filter-by-olympics.py\<close>.\<close>

definition BORN_RE :: "rx_item list" where
  "BORN_RE = lit '','' @ [Atom is_space Star,
     GOpen, Atom (\<lambda>c. c \<noteq> CHR '','') PlusLazy, GClose,
     Atom is_space Star] @ lit ''('' @ [GOpen, Atom is_upper Plus, GClose] @ lit '')'' @
     [Atom is_space Star, Eos]"

definition group :: "string list \<Rightarrow> nat \<Rightarrow> string" where
  "group gs n = (if 0 < n \<and> n \<le> length gs then gs ! (n - 1) else [])"

text \<open>\<open>_WINTER_RE = re.compile(r"^\d{4} Winter Olympics$")\<close> and its Summer twin, used
  with \<open>match\<close>, which anchors at the start of the string by itself.\<close>

definition WINTER_RE :: "rx_item list" where
  "WINTER_RE = Atom is_digit (Rep 4) # lit '' Winter Olympics'' @ [Eos]"

definition SUMMER_RE :: "rx_item list" where
  "SUMMER_RE = Atom is_digit (Rep 4) # lit '' Summer Olympics'' @ [Eos]"

text \<open>\<open>re.match(r"^/athletes/(\d+)$", href)\<close>\<close>

definition ATHLETE_RE :: "rx_item list" where
  "ATHLETE_RE = lit ''/athletes/'' @ [GOpen, Atom is_digit Plus, GClose, Eos]"

section \<open>Rows, seasons and configuration\<close>

text \<open>
  A row of a CSV table is what \<open>csv.DictReader\<close> yields: a dictionary from column
  names to strings, modelled as an association list. \<open>field r k\<close> is
  \<open>r.get(k, "")\<close>. A table is its header and its rows.
\<close>

type_synonym row = "(string \<times> string) list"

type_synonym table = "string list \<times> row list"

definition field :: "row \<Rightarrow> string \<Rightarrow> string" where
  "field r k = (case map_of r k of None \<Rightarrow> [] | Some v \<Rightarrow> v)"

datatype season = Winter | Summer

fun season_name :: "season \<Rightarrow> string" where
  "season_name Winter = ''Winter''"
| "season_name Summer = ''Summer''"

definition REQUEST_DELAY :: real where "REQUEST_DELAY = 4"
definition MAX_DELAY :: real where "MAX_DELAY = 60"
definition MAX_RETRIES :: nat where "MAX_RETRIES = 6"
definition MIN_YEAR :: nat where "MIN_YEAR = 1924"
definition BASE_URL :: string where "BASE_URL = ''https://www.olympedia.org''"
definition WINTER_DIR :: string where "WINTER_DIR = ''winter-output-data''"
definition SUMMER_DIR :: string where "SUMMER_DIR = ''summer-output-data''"

section \<open>The parser of anchors\<close>

text \<open>
  \<open>LinkTextParser\<close> overrides three handlers of \<open>html.parser.HTMLParser\<close>. The
  library's tokeniser is not part of the scripts: a response body is represented by
  the sequence of events the tokeniser produces from it, attribute values being
  strings. \<open>feed\<close> runs the handlers over the events and returns \<open>parser.links\<close>.
\<close>

datatype html_event = StartTag string "(string \<times> string) list" | EndTag string | Data string

type_synonym html = "html_event list"

type_synonym link = "string \<times> string"

record parser =
  in_a :: bool
  buf :: "string list"
  links :: "link list"
  href :: string

definition new_parser :: parser where
  "new_parser = \<lparr>in_a = False, buf = [], links = [], href = []\<rparr>"

text \<open>\<open>dict(attrs).get("href", "")\<close>: of a repeated attribute the last value counts.\<close>

definition attr_href :: "(string \<times> string) list \<Rightarrow> string" where
  "attr_href attrs = (case map_of (rev attrs) ''href'' of None \<Rightarrow> [] | Some v \<Rightarrow> v)"

fun handle :: "parser \<Rightarrow> html_event \<Rightarrow> parser" where
  "handle p (StartTag tag attrs) =
     (if tag = ''a'' then p\<lparr>in_a := True, buf := [], href := attr_href attrs\<rparr> else p)"
| "handle p (EndTag tag) =
     (if tag = ''a'' \<and> in_a p
      then p\<lparr>links := links p @ [(href p, strip (concat (buf p)))], in_a := False, buf := []\<rparr>
      else p)"
| "handle p (Data d) = (if in_a p then p\<lparr>buf := buf p @ [d]\<rparr> else p)"

definition feed :: "html \<Rightarrow> link list" where
  "feed h = links (foldl handle new_parser h)"

section \<open>The fetcher\<close>

text \<open>
  \<open>_fetch\<close> is the same in \<open>filter-by-olympics.py\<close> and \<open>filter-winter.py\<close>. The
  network is an oracle: the answer to the \<open>n\<close>-th request of the run for a URL.
  \<open>urlopen\<close> returns a body, raises \<open>HTTPError\<close> with a status code, or raises
  \<open>URLError\<close>. The state of the fetcher is the module variable \<open>_current_delay\<close>;
  the model also records the number of calls of \<open>_fetch\<close>, the number of requests
  sent and the arguments of \<open>time.sleep\<close>, in order. The delays are Python floats;
  every value they take (4, 8, 16, 32, 60) is exact, so they are modelled as reals.
\<close>

datatype response = Body html | HTTPError nat | URLError

type_synonym network = "nat \<Rightarrow> string \<Rightarrow> response"

record fetcher =
  current_delay :: real
  fetch_calls :: nat
  requests :: nat
  sleeps :: "real list"

definition new_fetcher :: fetcher where
  "new_fetcher = \<lparr>current_delay = REQUEST_DELAY, fetch_calls = 0, requests = 0, sleeps = []\<rparr>"

text \<open>The \<open>for attempt in range(1, MAX_RETRIES + 1)\<close> loop; the first argument counts
  the attempts that are left, \<open>delay\<close> is the local variable.\<close>

fun fetch_attempts :: "network \<Rightarrow> string \<Rightarrow> nat \<Rightarrow> real \<Rightarrow> fetcher \<Rightarrow> html option \<times> fetcher" where
  "fetch_attempts net url 0 delay st = (None, st)"
| "fetch_attempts net url (Suc k) delay st =
     (let st1 = st\<lparr>requests := Suc (requests st), sleeps := sleeps st @ [delay]\<rparr> in
      case net (requests st) url of
        Body b \<Rightarrow> (Some b, st1\<lparr>current_delay := REQUEST_DELAY\<rparr>)
      | HTTPError code \<Rightarrow>
          if code = 429 then fetch_attempts net url k (min (delay * 2) MAX_DELAY) st1
          else (None, st1)
      | URLError \<Rightarrow> (None, st1))"

definition fetch :: "network \<Rightarrow> string \<Rightarrow> fetcher \<Rightarrow> html option \<times> fetcher" where
  "fetch net url st =
     fetch_attempts net url MAX_RETRIES (current_delay st) (st\<lparr>fetch_calls := Suc (fetch_calls st)\<rparr>)"

section \<open>Reading a profile page and searching by name\<close>

text \<open>\<open>games_from_page\<close> of \<open>filter-by-olympics.py\<close>. The pattern
  \<open>rf"(\d{{4}} {season} Olympics)"\<close> is matched at the start of the link text.\<close>

definition edition_re :: "string \<Rightarrow> rx_item list" where
  "edition_re name = [GOpen, Atom is_digit (Rep 4)] @ lit ('' '' @ name @ '' Olympics'') @ [GClose]"

definition page_link :: "season \<Rightarrow> string list \<Rightarrow> link \<Rightarrow> string list" where
  "page_link season games l =
     (let (href, text) = l in
      if startswith href ''/editions/'' \<and> contains text (season_name season @ '' Olympics'')
      then (case rx_match (edition_re (season_name season)) text of
              None \<Rightarrow> games
            | Some gs \<Rightarrow>
                if MIN_YEAR \<le> int_of_digits (take 4 (group gs 1)) \<and> group gs 1 \<notin> set games
                then games @ [group gs 1] else games)
      else games)"

definition games_from_page :: "network \<Rightarrow> string \<Rightarrow> season \<Rightarrow> fetcher \<Rightarrow> string list option \<times> fetcher" where
  "games_from_page net athlete_id season st =
     (case fetch net (BASE_URL @ ''/athletes/'' @ athlete_id) st of
        (None, st') \<Rightarrow> (None, st')
      | (Some h, st') \<Rightarrow> (Some (sort (foldl (page_link season) [] (feed h))), st'))"

text \<open>\<open>winter_games_from_page\<close> of \<open>filter-winter.py\<close>: no minimum year.\<close>

definition winter_page_link :: "string list \<Rightarrow> link \<Rightarrow> string list" where
  "winter_page_link games l =
     (let (href, text) = l in
      if startswith href ''/editions/'' \<and> contains text ''Winter Olympics''
      then (case rx_match (edition_re ''Winter'') text of
              None \<Rightarrow> games
            | Some gs \<Rightarrow> if group gs 1 \<notin> set games then games @ [group gs 1] else games)
      else games)"

definition winter_games_from_page :: "network \<Rightarrow> string \<Rightarrow> fetcher \<Rightarrow> string list option \<times> fetcher" where
  "winter_games_from_page net athlete_id st =
     (case fetch net (BASE_URL @ ''/athletes/'' @ athlete_id) st of
        (None, st') \<Rightarrow> (None, st')
      | (Some h, st') \<Rightarrow> (Some (sort (foldl winter_page_link [] (feed h))), st'))"

text \<open>\<open>urllib.parse.quote_plus\<close> on the strings of the model: unreserved characters
  stay, a space becomes \<open>+\<close>, any other character is the percent-encoding of its
  UTF-8 bytes.\<close>

definition hex_digit :: "nat \<Rightarrow> char" where
  "hex_digit n = (if n < 16 then ''0123456789ABCDEF'' ! n else CHR ''0'')"

definition pct :: "nat \<Rightarrow> string" where
  "pct b = [CHR ''%'', hex_digit (b div 16), hex_digit (b mod 16)]"

definition quote_char :: "char \<Rightarrow> string" where
  "quote_char c =
     (if c \<in> set ''ABCDEFGHIJKLMNOPQRSTUVWXYZabcdefghijklmnopqrstuvwxyz0123456789_.-~'' then [c]
      else if c = CHR '' '' then ''+''
      else if (of_char c :: nat) < 128 then pct (of_char c)
      else pct (192 + of_char c div 64) @ pct (128 + of_char c mod 64))"

definition quote_plus :: "string \<Rightarrow> string" where
  "quote_plus s = concat (map quote_char s)"

text \<open>
  The loop over the links of the search page, the same in \<open>search_and_find_season\<close>
  and \<open>search_and_find_winter\<close> but for the function that reads a profile page,
  the argument \<open>page\<close>.
\<close>

fun try_links :: "(string \<Rightarrow> fetcher \<Rightarrow> string list option \<times> fetcher) \<Rightarrow> link list \<Rightarrow> fetcher
    \<Rightarrow> string list option \<times> fetcher" where
  "try_links page [] st = (None, st)"
| "try_links page (l # ls) st =
     (case rx_match ATHLETE_RE (fst l) of
        None \<Rightarrow> try_links page ls st
      | Some gs \<Rightarrow>
          (case page (group gs 1) st of
             (Some games, st') \<Rightarrow> (Some games, st')
           | (None, st') \<Rightarrow> try_links page ls st'))"

text \<open>\<open>used_name.replace("\<bullet>", " ").split()\<close>: the bullet is U+2022, which no string
  of the model contains, so the replacement changes nothing here.\<close>

definition name_parts :: "string \<Rightarrow> string list" where
  "name_parts used_name = split_ws used_name"

definition search_url :: "string list \<Rightarrow> string" where
  "search_url parts = BASE_URL @ ''/athletes/quick_search?query='' @ quote_plus (join '' '' parts)"

definition search_links :: "(string \<Rightarrow> fetcher \<Rightarrow> string list option \<times> fetcher) \<Rightarrow> network \<Rightarrow> string
    \<Rightarrow> fetcher \<Rightarrow> string list option \<times> fetcher" where
  "search_links page net used_name st =
     (let parts = name_parts used_name in
      if parts = [] then (None, st)
      else (case fetch net (search_url parts) st of
              (None, st') \<Rightarrow> (None, st')
            | (Some h, st') \<Rightarrow> try_links page (feed h) st'))"

definition search_and_find_season :: "network \<Rightarrow> string \<Rightarrow> season \<Rightarrow> fetcher \<Rightarrow> string list option \<times> fetcher" where
  "search_and_find_season net used_name season st =
     search_links (\<lambda>aid. games_from_page net aid season) net used_name st"

definition search_and_find_winter :: "network \<Rightarrow> string \<Rightarrow> fetcher \<Rightarrow> string list option \<times> fetcher" where
  "search_and_find_winter net used_name st =
     search_links (winter_games_from_page net) net used_name st"

section \<open>The index of known results\<close>

text \<open>
  The module-level loops over \<open>results.csv\<close>. \<open>winter_lookup\<close> and
  \<open>summer_lookup\<close> are \<open>defaultdict(list)\<close>: a function from identifiers to lists,
  the empty list where nothing was stored, which is also what the later
  \<open>lookup.get(aid, [])\<close> reads. \<open>seen_ids\<close> is a set.
\<close>

record index =
  winter_lookup :: "string \<Rightarrow> string list"
  summer_lookup :: "string \<Rightarrow> string list"
  seen_ids :: "string set"

definition new_index :: index where
  "new_index = \<lparr>winter_lookup = (\<lambda>_. []), summer_lookup = (\<lambda>_. []), seen_ids = {}\<rparr>"

definition matches :: "rx_item list \<Rightarrow> string \<Rightarrow> bool" where
  "matches re s = (rx_match re s \<noteq> None)"

text \<open>The body of the loop in \<open>filter-by-olympics.py\<close>.\<close>

definition add_result :: "index \<Rightarrow> row \<Rightarrow> index" where
  "add_result ix r =
     (let aid = strip (field r ''athlete_id''); games = strip (field r ''Games'') in
      if aid = [] then ix
      else
        (let w = winter_lookup ix; s = summer_lookup ix;
             w' = (if matches WINTER_RE games \<and> MIN_YEAR \<le> int_of_digits (take 4 games)
                      \<and> games \<notin> set (w aid)
                   then w(aid := w aid @ [games]) else w);
             s' = (if matches SUMMER_RE games \<and> MIN_YEAR \<le> int_of_digits (take 4 games)
                      \<and> games \<notin> set (s aid)
                   then s(aid := s aid @ [games]) else s)
         in \<lparr>winter_lookup = w', summer_lookup = s', seen_ids = insert aid (seen_ids ix)\<rparr>))"

text \<open>\<open>for aid in winter_lookup: winter_lookup[aid].sort()\<close>, and the same for Summer.\<close>

definition sort_lookups :: "index \<Rightarrow> index" where
  "sort_lookups ix = ix\<lparr>winter_lookup := (\<lambda>aid. sort (winter_lookup ix aid)),
                         summer_lookup := (\<lambda>aid. sort (summer_lookup ix aid))\<rparr>"

text \<open>The index of \<open>filter-by-olympics.py\<close>: \<open>results.csv\<close>, then
  \<open>2024-2026-us-results.csv\<close> if the file exists.\<close>

definition build_index :: "row list \<Rightarrow> row list option \<Rightarrow> index" where
  "build_index results new_results =
     (let ix = sort_lookups (foldl add_result new_index results) in
      case new_results of
        None \<Rightarrow> ix
      | Some rows \<Rightarrow> sort_lookups (foldl add_result ix rows))"

text \<open>The loop of \<open>filter-winter.py\<close>: Winter only, and no test of the year.\<close>

definition add_result_winter :: "index \<Rightarrow> row \<Rightarrow> index" where
  "add_result_winter ix r =
     (let aid = strip (field r ''athlete_id''); games = strip (field r ''Games'') in
      if aid = [] then ix
      else
        (let w = winter_lookup ix;
             w' = (if matches WINTER_RE games \<and> games \<notin> set (w aid)
                   then w(aid := w aid @ [games]) else w)
         in ix\<lparr>winter_lookup := w', seen_ids := insert aid (seen_ids ix)\<rparr>))"

definition build_index_winter :: "row list \<Rightarrow> index" where
  "build_index_winter results = sort_lookups (foldl add_result_winter new_index results)"

section \<open>The cache of earlier output\<close>

text \<open>
  The files of earlier runs: a path either does not exist or holds a table.
  \<open>os.path.join\<close> puts a slash between directory and name. The cache is the
  dictionary \<open>{aid: {"Winter": ..., "Summer": ...}}\<close> where \<open>None\<close> stands for
  a season never seen.
\<close>

type_synonym files = "string \<Rightarrow> table option"

type_synonym cache = "string \<Rightarrow> (season \<Rightarrow> string list option) option"

definition path_join :: "string \<Rightarrow> string \<Rightarrow> string" where
  "path_join dir name = dir @ ''/'' @ name"

text \<open>The inner function \<open>_add\<close>.\<close>

definition cache_add :: "cache \<Rightarrow> string \<Rightarrow> season \<Rightarrow> string list \<Rightarrow> cache" where
  "cache_add c aid season games =
     (let entry = (case c aid of None \<Rightarrow> (\<lambda>_. None) | Some e \<Rightarrow> e) in
      case entry season of
        None \<Rightarrow> c(aid \<mapsto> entry(season \<mapsto> sort games))
      | Some existing \<Rightarrow> c(aid \<mapsto> entry(season \<mapsto> sort (remdups (existing @ games)))))"

text \<open>\<open>[g.strip() for g in games_str.split(";") if g.strip()]\<close>\<close>

definition split_games :: "string \<Rightarrow> string list" where
  "split_games games_str = filter (\<lambda>g. g \<noteq> []) (map strip (split_on CHR '';'' games_str))"

definition cache_row :: "season \<Rightarrow> cache \<Rightarrow> row \<Rightarrow> cache" where
  "cache_row season c r =
     (let aid = strip (field r ''athlete_id'') in
      if aid = [] then c
      else cache_add c aid season (split_games (strip (field r ''Games''))))"

definition cache_file :: "files \<Rightarrow> string \<Rightarrow> season \<Rightarrow> cache \<Rightarrow> string \<Rightarrow> cache" where
  "cache_file fs out_dir season c fname =
     (case fs (path_join out_dir fname) of
        None \<Rightarrow> c
      | Some t \<Rightarrow> foldl (cache_row season) c (snd t))"

definition cache_season :: "files \<Rightarrow> cache \<Rightarrow> string \<times> season \<Rightarrow> cache" where
  "cache_season fs c ds =
     foldl (cache_file fs (fst ds) (snd ds)) c [''all-states.csv'', ''us-born-elsewhere.csv'']"

definition build_output_cache :: "files \<Rightarrow> cache" where
  "build_output_cache fs =
     foldl (cache_season fs) (\<lambda>_. None) [(WINTER_DIR, Winter), (SUMMER_DIR, Summer)]"

text \<open>\<open>_output_cache.get(aid, {}).get(season)\<close>\<close>

definition cache_get :: "cache \<Rightarrow> string \<Rightarrow> season \<Rightarrow> string list option" where
  "cache_get c aid season = (case c aid of None \<Rightarrow> None | Some e \<Rightarrow> e season)"

section \<open>Classification\<close>

definition make_out_fields :: "string list \<Rightarrow> string list" where
  "make_out_fields fieldnames =
     (if ''Roles'' \<in> set fieldnames
      then takeWhile (\<lambda>k. k \<noteq> ''Roles'') fieldnames @ ''Games'' #
           tl (dropWhile (\<lambda>k. k \<noteq> ''Roles'') fieldnames)
      else if ''Games'' \<notin> set fieldnames then ''Games'' # fieldnames
      else fieldnames)"

text \<open>\<open>build_out_row\<close>: the fields of \<open>out_fields\<close> copied from the row, then
  \<open>Games\<close> set.\<close>

definition build_out_row :: "row \<Rightarrow> string \<Rightarrow> string list \<Rightarrow> row" where
  "build_out_row r games_str out_fields =
     AList.update ''Games'' games_str (map (\<lambda>k. (k, field r k)) out_fields)"

definition born_state :: "row \<Rightarrow> string" where
  "born_state r =
     (case rx_search BORN_RE (field r ''Born'') of
        None \<Rightarrow> ''Unknown''
      | Some gs \<Rightarrow> strip (group gs 1))"

text \<open>\<open>parse_born\<close> of \<open>olympians-by-state.py\<close>, on the same pattern.\<close>

definition parse_born :: "string \<Rightarrow> string option \<times> string option" where
  "parse_born born_str =
     (if born_str = [] then (None, None)
      else (case rx_search BORN_RE born_str of
              None \<Rightarrow> (None, None)
            | Some gs \<Rightarrow> (Some (strip (group gs 1)), Some (strip (group gs 2)))))"

text \<open>\<open>state_key_fn(row) if state_key_fn else ""\<close>\<close>

definition row_key :: "(row \<Rightarrow> string) option \<Rightarrow> row \<Rightarrow> string" where
  "row_key state_key_fn r = (case state_key_fn of None \<Rightarrow> [] | Some f \<Rightarrow> f r)"

text \<open>
  \<open>classify_athletes\<close> of \<open>filter-by-olympics.py\<close>. The globals \<open>seen_ids\<close> and
  \<open>_output_cache\<close> are arguments. The first loop fills \<open>season_rows\<close> and
  \<open>needs_scrape\<close> (the counter \<open>from_cache\<close> only feeds a log line and is left out);
  the second loop scrapes.
\<close>

definition lookup_step :: "string set \<Rightarrow> cache \<Rightarrow> string list \<Rightarrow> season \<Rightarrow> (string \<Rightarrow> string list)
    \<Rightarrow> (row \<Rightarrow> string) option \<Rightarrow> (string \<times> row) list \<times> row list \<Rightarrow> row
    \<Rightarrow> (string \<times> row) list \<times> row list" where
  "lookup_step seen c out_fields season lookup state_key_fn acc r =
     (let (season_rows, needs_scrape) = acc; aid = strip (field r ''athlete_id'') in
      if aid \<in> seen then
        (if lookup aid \<noteq> []
         then (season_rows @ [(row_key state_key_fn r,
                 build_out_row r (join ''; '' (lookup aid)) out_fields)], needs_scrape)
         else (season_rows, needs_scrape))
      else (case cache_get c aid season of
              Some games \<Rightarrow>
                if games \<noteq> []
                then (season_rows @ [(row_key state_key_fn r,
                        build_out_row r (join ''; '' (sort games)) out_fields)], needs_scrape)
                else (season_rows, needs_scrape)
            | None \<Rightarrow> (season_rows, needs_scrape @ [r])))"

definition scrape_step :: "network \<Rightarrow> string list \<Rightarrow> season \<Rightarrow> (row \<Rightarrow> string) option
    \<Rightarrow> ((string \<times> row) list \<times> row list) \<times> fetcher \<Rightarrow> row
    \<Rightarrow> ((string \<times> row) list \<times> row list) \<times> fetcher" where
  "scrape_step net out_fields season state_key_fn acc r =
     (let ((season_rows, no_match_rows), st) = acc;
          aid = strip (field r ''athlete_id'');
          used_name = field r ''Used name'';
          (games, st') = (if aid \<noteq> [] then games_from_page net aid season st
                          else search_and_find_season net used_name season st)
      in case games of
           None \<Rightarrow> ((season_rows, no_match_rows @ [build_out_row r [] out_fields]), st')
         | Some g \<Rightarrow>
             if g \<noteq> []
             then ((season_rows @ [(row_key state_key_fn r,
                      build_out_row r (join ''; '' (sort g)) out_fields)], no_match_rows), st')
             else ((season_rows, no_match_rows), st'))"

definition classify_athletes :: "network \<Rightarrow> string set \<Rightarrow> cache \<Rightarrow> row list \<Rightarrow> string list \<Rightarrow> season
    \<Rightarrow> (string \<Rightarrow> string list) \<Rightarrow> (row \<Rightarrow> string) option \<Rightarrow> fetcher
    \<Rightarrow> ((string \<times> row) list \<times> row list) \<times> fetcher" where
  "classify_athletes net seen c athletes out_fields season lookup state_key_fn st =
     (let (season_rows, needs_scrape) =
            foldl (lookup_step seen c out_fields season lookup state_key_fn) ([], []) athletes
      in if needs_scrape = [] then ((season_rows, []), st)
         else foldl (scrape_step net out_fields season state_key_fn)
                ((season_rows, []), st) needs_scrape)"

text \<open>\<open>classify_athletes\<close> of \<open>filter-winter.py\<close>: no cache, Winter only.\<close>

definition lookup_step_winter :: "string set \<Rightarrow> string list \<Rightarrow> (string \<Rightarrow> string list)
    \<Rightarrow> (row \<Rightarrow> string) option \<Rightarrow> (string \<times> row) list \<times> row list \<Rightarrow> row
    \<Rightarrow> (string \<times> row) list \<times> row list" where
  "lookup_step_winter seen out_fields lookup state_key_fn acc r =
     (let (winter_rows, needs_scrape) = acc; aid = strip (field r ''athlete_id'') in
      if aid \<in> seen then
        (if lookup aid \<noteq> []
         then (winter_rows @ [(row_key state_key_fn r,
                 build_out_row r (join ''; '' (lookup aid)) out_fields)], needs_scrape)
         else (winter_rows, needs_scrape))
      else (winter_rows, needs_scrape @ [r]))"

definition scrape_step_winter :: "network \<Rightarrow> string list \<Rightarrow> (row \<Rightarrow> string) option
    \<Rightarrow> ((string \<times> row) list \<times> row list) \<times> fetcher \<Rightarrow> row
    \<Rightarrow> ((string \<times> row) list \<times> row list) \<times> fetcher" where
  "scrape_step_winter net out_fields state_key_fn acc r =
     (let ((winter_rows, no_match_rows), st) = acc;
          aid = strip (field r ''athlete_id'');
          used_name = field r ''Used name'';
          (games, st') = (if aid \<noteq> [] then winter_games_from_page net aid st
                          else search_and_find_winter net used_name st)
      in case games of
           None \<Rightarrow> ((winter_rows, no_match_rows @ [build_out_row r [] out_fields]), st')
         | Some g \<Rightarrow>
             if g \<noteq> []
             then ((winter_rows @ [(row_key state_key_fn r,
                      build_out_row r (join ''; '' (sort g)) out_fields)], no_match_rows), st')
             else ((winter_rows, no_match_rows), st'))"

definition classify_athletes_winter :: "network \<Rightarrow> string set \<Rightarrow> row list \<Rightarrow> string list
    \<Rightarrow> (string \<Rightarrow> string list) \<Rightarrow> (row \<Rightarrow> string) option \<Rightarrow> fetcher
    \<Rightarrow> ((string \<times> row) list \<times> row list) \<times> fetcher" where
  "classify_athletes_winter net seen athletes out_fields lookup state_key_fn st =
     (let (winter_rows, needs_scrape) =
            foldl (lookup_step_winter seen out_fields lookup state_key_fn) ([], []) athletes
      in foldl (scrape_step_winter net out_fields state_key_fn) ((winter_rows, []), st) needs_scrape)"

section \<open>Writing the output\<close>

text \<open>
  \<open>write_csv\<close> writes, through \<open>csv.DictWriter\<close> with \<open>extrasaction="ignore"\<close>, the
  header and for every row the values of the header's fields, the empty string where
  a row lacks one. The table stored is the one \<open>csv.DictReader\<close> reads back.
\<close>

definition write_csv :: "string \<Rightarrow> row list \<Rightarrow> string list \<Rightarrow> files \<Rightarrow> files" where
  "write_csv path rows fieldnames fs =
     fs(path \<mapsto> (fieldnames, map (\<lambda>r. map (\<lambda>k. (k, field r k)) fieldnames) rows))"

text \<open>\<open>str(n)\<close> of a count.\<close>

function str_nat :: "nat \<Rightarrow> string" where
  "str_nat n =
     (if n < 10 then [char_of (48 + n)] else str_nat (n div 10) @ [char_of (48 + n mod 10)])"
  by pat_completeness auto
termination
  by (relation "measure id") auto

text \<open>\<open>state_season\<close>, a \<open>defaultdict(list)\<close> filled by appending each row under its key.\<close>

definition group_by_state :: "(string \<times> row) list \<Rightarrow> string \<Rightarrow> row list" where
  "group_by_state states_rows =
     foldl (\<lambda>m kr. m(fst kr := m (fst kr) @ [snd kr])) (\<lambda>_. []) states_rows"

definition count_table :: "string list \<Rightarrow> (string \<Rightarrow> row list) \<Rightarrow> table" where
  "count_table states state_season =
     ([''state'', ''number''],
      map (\<lambda>state. [(''state'', state), (''number'', str_nat (length (state_season state)))])
        (filter (\<lambda>state. 0 < length (state_season state)) (sort states)))"

definition safe_name :: "string \<Rightarrow> string" where
  "safe_name state = map (\<lambda>c. if c = CHR ''/'' then CHR ''-'' else c) state"

definition write_state :: "string \<Rightarrow> string list \<Rightarrow> (string \<Rightarrow> row list) \<Rightarrow> files \<Rightarrow> string \<Rightarrow> files" where
  "write_state out_dir out_fields state_season fs state =
     (if state_season state = [] then fs
      else write_csv (path_join (path_join out_dir ''by-state'') (safe_name state @ ''.csv''))
             (state_season state) out_fields fs)"

text \<open>\<open>write_season_output\<close> of \<open>filter-by-olympics.py\<close>; \<open>states_list\<close> is the global
  read from \<open>states-list.txt\<close>. The result is the file system after the five writes.\<close>

definition write_season_output :: "string list \<Rightarrow> string \<Rightarrow> (string \<times> row) list \<Rightarrow> (string \<times> row) list
    \<Rightarrow> row list \<Rightarrow> string list \<Rightarrow> string list \<Rightarrow> files \<Rightarrow> files" where
  "write_season_output states out_dir states_rows elsewhere_rows no_match_all out_fields
       elsewhere_fields fs =
     (let state_season = group_by_state states_rows;
          fs1 = fs(path_join out_dir ''count.csv'' \<mapsto> count_table states state_season);
          fs2 = foldl (write_state out_dir out_fields state_season) fs1 (sort states);
          all_season = concat (map state_season (sort states));
          fs3 = write_csv (path_join out_dir ''all-states.csv'') all_season out_fields fs2;
          elsewhere_out = map snd elsewhere_rows;
          fs4 = write_csv (path_join out_dir ''us-born-elsewhere.csv'') elsewhere_out
                  (make_out_fields elsewhere_fields) fs3
      in write_csv (path_join out_dir ''no-match.csv'') no_match_all out_fields fs4)"

text \<open>The module-level statements of \<open>filter-winter.py\<close> that write the Winter
  output: the same five writes into \<open>WINTER_DIR\<close>.\<close>

definition write_winter_output :: "string list \<Rightarrow> (string \<times> row) list \<Rightarrow> (string \<times> row) list
    \<Rightarrow> row list \<Rightarrow> string list \<Rightarrow> string list \<Rightarrow> files \<Rightarrow> files" where
  "write_winter_output states winter_rows winter_elsewhere all_no_match out_fields
       elsewhere_fields fs =
     (let state_winter = group_by_state winter_rows;
          fs1 = fs(path_join WINTER_DIR ''count.csv'' \<mapsto> count_table states state_winter);
          fs2 = foldl (write_state WINTER_DIR out_fields state_winter) fs1 (sort states);
          all_winter = concat (map state_winter (sort states));
          fs3 = write_csv (path_join WINTER_DIR ''all-states.csv'') all_winter out_fields fs2;
          elsewhere_out = map snd winter_elsewhere;
          fs4 = write_csv (path_join WINTER_DIR ''us-born-elsewhere.csv'') elsewhere_out
                  (make_out_fields elsewhere_fields) fs3
      in write_csv (path_join WINTER_DIR ''no-match.csv'') all_no_match out_fields fs4)"

section \<open>A run of \<open>filter-by-olympics.py\<close>\<close>

text \<open>
  The inputs of a run are the known results, the list of states and the two athlete
  tables of \<open>output-data\<close>; the files of the two season directories are read into the
  cache at the start and written at the end of each season.
\<close>

record inputs =
  in_results :: "row list"
  in_new_results :: "row list option"
  in_states :: "string list"
  in_all_states :: table
  in_elsewhere :: table

definition run_season :: "network \<Rightarrow> inputs \<Rightarrow> string set \<Rightarrow> cache \<Rightarrow> season \<Rightarrow> string
    \<Rightarrow> (string \<Rightarrow> string list) \<Rightarrow> files \<times> fetcher \<Rightarrow> files \<times> fetcher" where
  "run_season net inp seen c season out_dir lookup fsst =
     (let (fs, st) = fsst;
          out_fields = make_out_fields (fst (in_all_states inp));
          ((season_rows, no_match_rows), st1) =
             classify_athletes net seen c (snd (in_all_states inp)) out_fields season lookup
               (Some born_state) st;
          ((season_elsewhere, no_match_elsewhere), st2) =
             classify_athletes net seen c (snd (in_elsewhere inp)) out_fields season lookup
               None st1
      in (write_season_output (in_states inp) out_dir season_rows season_elsewhere
            (no_match_rows @ no_match_elsewhere) out_fields (fst (in_elsewhere inp)) fs, st2))"

definition main :: "network \<Rightarrow> inputs \<Rightarrow> files \<times> fetcher \<Rightarrow> files \<times> fetcher" where
  "main net inp fsst =
     (let ix = build_index (in_results inp) (in_new_results inp);
          c = build_output_cache (fst fsst);
          fsst1 = run_season net inp (seen_ids ix) c Winter WINTER_DIR (winter_lookup ix) fsst
      in run_season net inp (seen_ids ix) c Summer SUMMER_DIR (summer_lookup ix) fsst1)"

section \<open>Vocabulary of the properties and example inputs\<close>

text \<open>Three known results of one athlete: a Winter edition before 1924, one of 1924, and
  a Youth edition.\<close>

definition example_results :: "row list" where
  "example_results =
     [[(''athlete_id'', ''7''), (''Games'', ''1920 Winter Olympics'')],
      [(''athlete_id'', ''7''), (''Games'', ''1924 Winter Olympics'')],
      [(''athlete_id'', ''7''), (''Games'', ''1924 Winter Youth Olympics'')]]"

text \<open>A server that answers every request with status 429.\<close>

definition throttled :: network where
  "throttled = (\<lambda>n url. HTTPError 429)"

text \<open>An athlete of the known results, files of an earlier run that list athlete 9 for
  Winter, and that athlete's row.\<close>

definition example_athlete :: row where
  "example_athlete = [(''athlete_id'', ''7''), (''Used name'', ''Ann Example''),
     (''Born'', ''1 May 1900 in Butte, Montana (USA)'')]"

definition example_files :: files where
  "example_files = (\<lambda>_. None)(path_join WINTER_DIR ''all-states.csv'' \<mapsto>
     ([''athlete_id'', ''Games''],
      [[(''athlete_id'', ''9''), (''Games'', ''1928 Winter Olympics; 1924 Winter Olympics'')]]))"

definition example_cached_athlete :: row where
  "example_cached_athlete = [(''athlete_id'', '' 9''), (''Used name'', ''Bo Example'')]"

text \<open>
  Vocabulary for the properties of the cache: the directory of a season, the rows of a
  file (none if it does not exist), the rows of the two matched tables of a season,
  the editions these rows list for an identifier, and the editions a cache holds.
\<close>

fun season_dir :: "season \<Rightarrow> string" where
  "season_dir Winter = WINTER_DIR"
| "season_dir Summer = SUMMER_DIR"

definition file_rows :: "files \<Rightarrow> string \<Rightarrow> row list" where
  "file_rows fs path = (case fs path of None \<Rightarrow> [] | Some t \<Rightarrow> snd t)"

definition matched_rows :: "files \<Rightarrow> season \<Rightarrow> row list" where
  "matched_rows fs season =
     file_rows fs (path_join (season_dir season) ''all-states.csv'') @
     file_rows fs (path_join (season_dir season) ''us-born-elsewhere.csv'')"

definition listed_games :: "row list \<Rightarrow> string \<Rightarrow> string set" where
  "listed_games rows aid =
     set (concat (map (\<lambda>r. split_games (strip (field r ''Games'')))
       (filter (\<lambda>r. strip (field r ''athlete_id'') = aid) rows)))"

definition known_games :: "cache \<Rightarrow> string \<Rightarrow> season \<Rightarrow> string set" where
  "known_games c aid s = (case cache_get c aid s of None \<Rightarrow> {} | Some e \<Rightarrow> set e)"

text \<open>Earlier output in which athlete 7 is listed for Winter with an empty \<open>Games\<close>
  value; a no-match table listing athlete 5, and that athlete's row.\<close>

definition example_blank_files :: files where
  "example_blank_files = (\<lambda>_. None)(path_join WINTER_DIR ''all-states.csv'' \<mapsto>
     ([''athlete_id'', ''Games''], [[(''athlete_id'', ''7''), (''Games'', [])]]))"

definition example_no_match :: "table option" where
  "example_no_match = Some ([''athlete_id'', ''Games''], [[(''athlete_id'', ''5''), (''Games'', [])]])"

definition example_failed_athlete :: row where
  "example_failed_athlete = [(''athlete_id'', ''5''), (''Used name'', ''Cy Example'')]"

text \<open>
  The state in which the loop over the links ends when no candidate link gives a
  result: every link whose target matches the profile pattern is tried in order and
  fails. It is \<open>None\<close> as soon as one candidate succeeds.
\<close>

fun fail_state :: "(string \<Rightarrow> fetcher \<Rightarrow> string list option \<times> fetcher) \<Rightarrow> link list \<Rightarrow> fetcher
    \<Rightarrow> fetcher option" where
  "fail_state page [] st = Some st"
| "fail_state page (l # ls) st =
     (case rx_match ATHLETE_RE (fst l) of
        None \<Rightarrow> fail_state page ls st
      | Some gs \<Rightarrow>
          (case page (group gs 1) st of
             (None, st1) \<Rightarrow> fail_state page ls st1
           | (Some g, st1) \<Rightarrow> None))"

text \<open>A search page with two profile links and another link, a profile page, and a
  server that knows the search for \<open>Ann Example\<close> and the profile of athlete 34 and
  answers 404 to everything else.\<close>

definition example_search_page :: html where
  "example_search_page =
     [StartTag ''a'' [(''href'', ''/athletes/12'')], Data ''Ann Example'', EndTag ''a'',
      StartTag ''a'' [(''href'', ''/countries/USA'')], Data ''USA'', EndTag ''a'',
      StartTag ''a'' [(''href'', ''/athletes/34'')], Data ''Ann Example'', EndTag ''a'']"

definition example_profile :: html where
  "example_profile =
     [StartTag ''a'' [(''href'', ''/editions/29'')], Data ''1924 Winter Olympics'', EndTag ''a'',
      StartTag ''a'' [(''href'', ''/editions/8'')], Data ''1920 Summer Olympics'', EndTag ''a'']"

definition example_net :: network where
  "example_net = (\<lambda>n url.
     if url = ''https://www.olympedia.org/athletes/quick_search?query=Ann+Example''
     then Body example_search_page
     else if url = ''https://www.olympedia.org/athletes/34'' then Body example_profile
     else HTTPError 404)"

text \<open>
  An edition as the scripts write it into a \<open>Games\<close> value: not empty, without a
  semicolon, without whitespace at either end.
\<close>

definition edition_token :: "string \<Rightarrow> bool" where
  "edition_token g \<longleftrightarrow> g \<noteq> [] \<and> CHR '';'' \<notin> set g \<and> \<not> is_space (hd g) \<and> \<not> is_space (last g)"

text \<open>
  Two runs: no earlier output; an athlete without identifier who is found by name, and
  an athlete with identifier 34, each the only athlete of a run, both born outside
  the listed states.
\<close>

definition no_files :: files where
  "no_files = (\<lambda>_. None)"

definition ann :: row where
  "ann = [(''athlete_id'', []), (''Used name'', ''Ann Example''), (''Born'', ''in Paris (FRA)''),
          (''Roles'', ''Competed in Olympic Games'')]"

definition ann_out :: row where
  "ann_out = [(''athlete_id'', []), (''Used name'', ''Ann Example''), (''Born'', ''in Paris (FRA)''),
          (''Games'', ''1924 Winter Olympics'')]"

definition example_inputs :: inputs where
  "example_inputs =
     \<lparr>in_results = example_results, in_new_results = None, in_states = [''Montana''],
      in_all_states = ([''athlete_id'', ''Used name'', ''Born'', ''Roles''], []),
      in_elsewhere = ([''athlete_id'', ''Used name'', ''Born'', ''Roles''],
        [ann])\<rparr>"

definition bea :: row where
  "bea = [(''athlete_id'', ''34''), (''Used name'', ''Bea Example''), (''Born'', ''in Paris (FRA)''),
          (''Roles'', ''Competed in Olympic Games'')]"

definition bea_out :: row where
  "bea_out = [(''athlete_id'', ''34''), (''Used name'', ''Bea Example''), (''Born'', ''in Paris (FRA)''),
          (''Games'', ''1924 Winter Olympics'')]"

definition example_inputs2 :: inputs where
  "example_inputs2 =
     \<lparr>in_results = example_results, in_new_results = None, in_states = [''Montana''],
      in_all_states = ([''athlete_id'', ''Used name'', ''Born'', ''Roles''], []),
      in_elsewhere = ([''athlete_id'', ''Used name'', ''Born'', ''Roles''], [bea])\<rparr>"

text \<open>What follows the first group of \<open>_BORN_RE\<close>.\<close>

definition BORN_TAIL :: "rx_item list" where
  "BORN_TAIL = [GClose, Atom is_space Star] @ lit ''('' @ [GOpen, Atom is_upper Plus, GClose] @
     lit '')'' @ [Atom is_space Star, Eos]"

section \<open>Properties\<close>

subsection \<open>Evaluating the patterns\<close>

lemma rx_run_Rep_numeral [simp]:
  "rx_run (Atom p (Rep (numeral k)) # r) cur gs s =
     (case s of [] \<Rightarrow> None
      | c # cs \<Rightarrow> if p c then rx_run (Atom p (Rep (pred_numeral k)) # r) (push c cur) gs cs else None)"
  by (simp add: numeral_eq_Suc)

lemma rx_run_Rep_1 [simp]:
  "rx_run (Atom p (Rep 1) # r) cur gs s =
     (case s of [] \<Rightarrow> None
      | c # cs \<Rightarrow> if p c then rx_run r (push c cur) gs cs else None)"
  by (cases s) simp_all

lemma push_grow: "map_option (\<lambda>b. b @ u) (push c cur) = map_option (\<lambda>b. b @ c # u) cur"
  by (cases cur) (simp_all add: push_def)

lemmas char_classes = is_space_def is_digit_def is_upper_def

lemmas patterns = BORN_RE_def WINTER_RE_def SUMMER_RE_def ATHLETE_RE_def edition_re_def lit_def
  push_def rx_match_def matches_def group_def

subsection \<open>The back-off of the fetcher\<close>

lemma current_delay_fetch_attempts:
  "current_delay (snd (fetch_attempts net url k delay st)) = current_delay st \<or>
   current_delay (snd (fetch_attempts net url k delay st)) = REQUEST_DELAY"
proof (induction k arbitrary: delay st)
  case 0
  show ?case by simp
next
  case (Suc k)
  show ?case
  proof (cases "net (requests st) url")
    case (Body b)
    then show ?thesis by (simp add: Let_def)
  next
    case (HTTPError code)
    then show ?thesis
      using Suc.IH[of "min (delay * 2) MAX_DELAY"
          "st\<lparr>requests := Suc (requests st), sleeps := sleeps st @ [delay]\<rparr>"]
      by (simp add: Let_def)
  next
    case URLError
    then show ?thesis by (simp add: Let_def)
  qed
qed

text \<open>The module variable never leaves the base delay: no call of \<open>_fetch\<close> stores a
  doubled delay in it.\<close>

lemma current_delay_fetch:
  "current_delay st = REQUEST_DELAY \<Longrightarrow> current_delay (snd (fetch net url st)) = REQUEST_DELAY"
  using current_delay_fetch_attempts[of net url MAX_RETRIES "current_delay st"
      "st\<lparr>fetch_calls := Suc (fetch_calls st)\<rparr>"]
  by (auto simp: fetch_def)

text \<open>
  Claim C1. Two calls of \<open>_fetch\<close> in a row against a server that always answers 429.
  The first call sleeps 4, 8, 16, 32, 60 and 60 seconds and gives up; it leaves
  \<open>_current_delay\<close> at 4, and the second call starts again at 4 seconds and sleeps the
  same six delays: the doubled delay lives in the local variable of one call and is
  not seen by the next.
\<close>

theorem fetch_backoff_is_per_call:
  "fetch throttled url new_fetcher =
     (None, \<lparr>current_delay = 4, fetch_calls = 1, requests = 6, sleeps = [4, 8, 16, 32, 60, 60]\<rparr>) \<and>
   fetch throttled url (snd (fetch throttled url new_fetcher)) =
     (None, \<lparr>current_delay = 4, fetch_calls = 2, requests = 12,
        sleeps = [4, 8, 16, 32, 60, 60, 4, 8, 16, 32, 60, 60]\<rparr>)"
  by (simp add: fetch_def throttled_def new_fetcher_def MAX_RETRIES_def REQUEST_DELAY_def
      MAX_DELAY_def numeral_eq_Suc)

subsection \<open>The index of known results\<close>

lemma set_winter_add_result:
  "set (winter_lookup (add_result ix r) aid) = set (winter_lookup ix aid) \<union>
     {g. aid \<noteq> [] \<and> strip (field r ''athlete_id'') = aid \<and> strip (field r ''Games'') = g \<and>
         matches WINTER_RE g \<and> MIN_YEAR \<le> int_of_digits (take 4 g)}"
  by (auto simp: add_result_def Let_def)

lemma set_summer_add_result:
  "set (summer_lookup (add_result ix r) aid) = set (summer_lookup ix aid) \<union>
     {g. aid \<noteq> [] \<and> strip (field r ''athlete_id'') = aid \<and> strip (field r ''Games'') = g \<and>
         matches SUMMER_RE g \<and> MIN_YEAR \<le> int_of_digits (take 4 g)}"
  by (auto simp: add_result_def Let_def)

lemma set_winter_foldl_add_result:
  "set (winter_lookup (foldl add_result ix rows) aid) = set (winter_lookup ix aid) \<union>
     {g. aid \<noteq> [] \<and> matches WINTER_RE g \<and> MIN_YEAR \<le> int_of_digits (take 4 g) \<and>
         (\<exists>r\<in>set rows. strip (field r ''athlete_id'') = aid \<and> strip (field r ''Games'') = g)}"
proof (induction rows arbitrary: ix)
  case Nil
  show ?case by simp
next
  case (Cons r rows)
  show ?case
    unfolding foldl_Cons Cons.IH set_winter_add_result by auto
qed

lemma set_summer_foldl_add_result:
  "set (summer_lookup (foldl add_result ix rows) aid) = set (summer_lookup ix aid) \<union>
     {g. aid \<noteq> [] \<and> matches SUMMER_RE g \<and> MIN_YEAR \<le> int_of_digits (take 4 g) \<and>
         (\<exists>r\<in>set rows. strip (field r ''athlete_id'') = aid \<and> strip (field r ''Games'') = g)}"
proof (induction rows arbitrary: ix)
  case Nil
  show ?case by simp
next
  case (Cons r rows)
  show ?case
    unfolding foldl_Cons Cons.IH set_summer_add_result by auto
qed

lemma set_winter_add_result_winter:
  "set (winter_lookup (add_result_winter ix r) aid) = set (winter_lookup ix aid) \<union>
     {g. aid \<noteq> [] \<and> strip (field r ''athlete_id'') = aid \<and> strip (field r ''Games'') = g \<and>
         matches WINTER_RE g}"
  by (auto simp: add_result_winter_def Let_def)

lemma set_winter_foldl_add_result_winter:
  "set (winter_lookup (foldl add_result_winter ix rows) aid) = set (winter_lookup ix aid) \<union>
     {g. aid \<noteq> [] \<and> matches WINTER_RE g \<and>
         (\<exists>r\<in>set rows. strip (field r ''athlete_id'') = aid \<and> strip (field r ''Games'') = g)}"
proof (induction rows arbitrary: ix)
  case Nil
  show ?case by simp
next
  case (Cons r rows)
  show ?case
    unfolding foldl_Cons Cons.IH set_winter_add_result_winter by auto
qed

lemma winter_sort_lookups [simp]:
  "winter_lookup (sort_lookups ix) aid = sort (winter_lookup ix aid)"
  by (simp add: sort_lookups_def)

lemma summer_sort_lookups [simp]:
  "summer_lookup (sort_lookups ix) aid = sort (summer_lookup ix aid)"
  by (simp add: sort_lookups_def)

lemma seen_sort_lookups [simp]: "seen_ids (sort_lookups ix) = seen_ids ix"
  by (simp add: sort_lookups_def)

lemma year_1920_too_early: "\<not> MIN_YEAR \<le> int_of_digits (take 4 ''1920 Winter Olympics'')"
  by (simp add: MIN_YEAR_def int_of_digits_def digit_val_def)

lemma youth_is_no_match: "\<not> matches WINTER_RE ''1924 Winter Youth Olympics''"
  by (simp add: patterns char_classes)

text \<open>
  Claim C2, as the Winter-only script does not have it. The index of
  \<open>filter-winter.py\<close> has no minimum year and keeps \<open>1920 Winter Olympics\<close>.
\<close>

theorem winter_only_index_keeps_1920:
  "winter_lookup (build_index_winter example_results) ''7'' =
     [''1920 Winter Olympics'', ''1924 Winter Olympics'']"
  by (simp add: example_results_def build_index_winter_def add_result_winter_def new_index_def
      field_def strip_def patterns char_classes Let_def)

text \<open>An edition that passes \<open>_WINTER_RE\<close> or \<open>_SUMMER_RE\<close> after \<open>strip\<close> is four
  digits followed by the literal text, and nothing else.\<close>

lemma lit_run:
  "rx_run (lit w @ r) cur gs s =
     (if startswith s w then rx_run r (map_option (\<lambda>b. b @ w) cur) gs (drop (length w) s) else None)"
proof (induction w arbitrary: s cur)
  case Nil
  have "map_option (\<lambda>b. b @ []) cur = cur" by (cases cur) simp_all
  then show ?case by (simp add: lit_def)
next
  case (Cons c w)
  show ?case
  proof (cases s)
    case Nil
    then show ?thesis by (simp add: lit_def)
  next
    case (Cons d t)
    have "rx_run (lit (c # w) @ r) cur gs (d # t) =
        (if d = c then rx_run (lit w @ r) (push d cur) gs t else None)"
      by (simp add: lit_def)
    then show ?thesis using Cons Cons.IH[of "push c cur" t] by (auto simp: push_grow)
  qed
qed

lemma startswith_iff: "startswith s w \<longleftrightarrow> take (length w) s = w"
  by (induction s w rule: startswith.induct) auto

lemma edition_pattern:
  "matches (Atom is_digit (Rep 4) # lit w @ [Eos]) g \<longleftrightarrow>
     (\<exists>y. length y = 4 \<and> list_all is_digit y \<and> (g = y @ w \<or> g = y @ w @ [CHR 0x0A]))"
proof -
  have r: "rx_run (lit w @ [Eos]) None [] t \<noteq> None \<longleftrightarrow> t = w \<or> t = w @ [CHR 0x0A]" for t
  proof -
    have e: "rx_run (lit w @ [Eos]) None [] t \<noteq> None \<longleftrightarrow>
        take (length w) t = w \<and> (drop (length w) t = [] \<or> drop (length w) t = [CHR 0x0A])"
      unfolding lit_run startswith_iff by simp
    have "t = take (length w) t @ drop (length w) t" by (simp only: append_take_drop_id)
    then have "take (length w) t = w \<and> (drop (length w) t = [] \<or> drop (length w) t = [CHR 0x0A])
        \<longleftrightarrow> t = w \<or> t = w @ [CHR 0x0A]"
      by (metis append_Nil2 append_eq_conv_conj)
    with e show ?thesis by simp
  qed
  show ?thesis
  proof
    assume m: "matches (Atom is_digit (Rep 4) # lit w @ [Eos]) g"
    then obtain a b c d t where g: "g = a # b # c # d # t"
      and dg: "is_digit a" "is_digit b" "is_digit c" "is_digit d"
      and t: "rx_run (lit w @ [Eos]) None [] t \<noteq> None"
      unfolding matches_def rx_match_def
      by (cases g; simp add: push_def split: list.splits if_splits)
    have "length [a, b, c, d] = 4 \<and> list_all is_digit [a, b, c, d] \<and>
        (g = [a, b, c, d] @ w \<or> g = [a, b, c, d] @ w @ [CHR 0x0A])"
      using g dg t[unfolded r] by auto
    then show "\<exists>y. length y = 4 \<and> list_all is_digit y \<and> (g = y @ w \<or> g = y @ w @ [CHR 0x0A])"
      by blast
  next
    assume "\<exists>y. length y = 4 \<and> list_all is_digit y \<and> (g = y @ w \<or> g = y @ w @ [CHR 0x0A])"
    then obtain y where y: "length y = 4" "list_all is_digit y" "g = y @ w \<or> g = y @ w @ [CHR 0x0A]"
      by blast
    obtain a b c d where abcd: "y = [a, b, c, d]"
      using y(1) by (auto simp: length_Suc_conv eval_nat_numeral)
    have "rx_run (lit w @ [Eos]) None [] (drop 4 g) \<noteq> None"
      unfolding r using y(3) abcd by auto
    then show "matches (Atom is_digit (Rep 4) # lit w @ [Eos]) g"
      unfolding matches_def rx_match_def using y(2,3) abcd
      by (auto simp: push_def)
  qed
qed

lemma last_strip: "strip s \<noteq> [] \<Longrightarrow> \<not> is_space (last (strip s))"
proof -
  assume a: "strip s \<noteq> []"
  let ?d = "dropWhile is_space (rev (dropWhile is_space s))"
  have ne: "?d \<noteq> []" using a by (simp add: strip_def)
  have "last (strip s) = hd ?d" unfolding strip_def using ne by (simp add: last_rev)
  then show ?thesis using hd_dropWhile[OF ne] by simp
qed

lemma stripped_edition:
  assumes "matches (Atom is_digit (Rep 4) # lit w @ [Eos]) (strip x)"
  shows "\<exists>y. length y = 4 \<and> list_all is_digit y \<and> strip x = y @ w"
proof -
  from assms[unfolded edition_pattern] obtain y where
    y: "length y = 4" "list_all is_digit y" "strip x = y @ w \<or> strip x = y @ w @ [CHR 0x0A]"
    by blast
  have "strip x \<noteq> y @ w @ [CHR 0x0A]"
  proof
    assume e: "strip x = y @ w @ [CHR 0x0A]"
    then have "strip x \<noteq> []" by simp
    from last_strip[OF this] show False unfolding e by (simp add: is_space_def)
  qed
  then show ?thesis using y by blast
qed

text \<open>
  Claim C2, amended. The index of \<open>filter-by-olympics.py\<close> holds an edition for an
  athlete exactly when a row of the known results carries it for that athlete, it
  matches the season's pattern, and its year is at least 1924; every edition it holds
  is four digits, a year from 1924 on, followed by \<open>Winter Olympics\<close> or
  \<open>Summer Olympics\<close> with one space before it, so \<open>1920 Winter Olympics\<close> and
  \<open>1924 Winter Youth Olympics\<close> are never kept. The index of \<open>filter-winter.py\<close>
  holds every edition that matches the Winter pattern, whatever its year, and never
  the Youth edition.
\<close>

theorem index_retains:
  "(g \<in> set (winter_lookup (build_index results new_results) aid) \<longleftrightarrow>
      aid \<noteq> [] \<and> matches WINTER_RE g \<and> MIN_YEAR \<le> int_of_digits (take 4 g) \<and>
      (\<exists>r\<in>set (results @ (case new_results of None \<Rightarrow> [] | Some rows \<Rightarrow> rows)).
          strip (field r ''athlete_id'') = aid \<and> strip (field r ''Games'') = g)) \<and>
   (g \<in> set (summer_lookup (build_index results new_results) aid) \<longleftrightarrow>
      aid \<noteq> [] \<and> matches SUMMER_RE g \<and> MIN_YEAR \<le> int_of_digits (take 4 g) \<and>
      (\<exists>r\<in>set (results @ (case new_results of None \<Rightarrow> [] | Some rows \<Rightarrow> rows)).
          strip (field r ''athlete_id'') = aid \<and> strip (field r ''Games'') = g)) \<and>
   (g \<in> set (winter_lookup (build_index results new_results) aid) \<longrightarrow>
      (\<exists>y. length y = 4 \<and> list_all is_digit y \<and> MIN_YEAR \<le> int_of_digits y \<and>
           g = y @ '' Winter Olympics'')) \<and>
   (g \<in> set (summer_lookup (build_index results new_results) aid) \<longrightarrow>
      (\<exists>y. length y = 4 \<and> list_all is_digit y \<and> MIN_YEAR \<le> int_of_digits y \<and>
           g = y @ '' Summer Olympics'')) \<and>
   ''1920 Winter Olympics'' \<notin> set (winter_lookup (build_index results new_results) aid) \<and>
   ''1924 Winter Youth Olympics'' \<notin> set (winter_lookup (build_index results new_results) aid) \<and>
   (g \<in> set (winter_lookup (build_index_winter results) aid) \<longleftrightarrow>
      aid \<noteq> [] \<and> matches WINTER_RE g \<and>
      (\<exists>r\<in>set results. strip (field r ''athlete_id'') = aid \<and> strip (field r ''Games'') = g)) \<and>
   (g \<in> set (winter_lookup (build_index_winter results) aid) \<longrightarrow>
      (\<exists>y. length y = 4 \<and> list_all is_digit y \<and> g = y @ '' Winter Olympics'')) \<and>
   ''1924 Winter Youth Olympics'' \<notin> set (winter_lookup (build_index_winter results) aid)"
proof -
  have w: "\<And>g. g \<in> set (winter_lookup (build_index results new_results) aid) \<longleftrightarrow>
      aid \<noteq> [] \<and> matches WINTER_RE g \<and> MIN_YEAR \<le> int_of_digits (take 4 g) \<and>
      (\<exists>r\<in>set (results @ (case new_results of None \<Rightarrow> [] | Some rows \<Rightarrow> rows)).
          strip (field r ''athlete_id'') = aid \<and> strip (field r ''Games'') = g)"
    by (cases new_results)
      (auto simp: build_index_def Let_def set_winter_foldl_add_result new_index_def)
  have s: "g \<in> set (summer_lookup (build_index results new_results) aid) \<longleftrightarrow>
      aid \<noteq> [] \<and> matches SUMMER_RE g \<and> MIN_YEAR \<le> int_of_digits (take 4 g) \<and>
      (\<exists>r\<in>set (results @ (case new_results of None \<Rightarrow> [] | Some rows \<Rightarrow> rows)).
          strip (field r ''athlete_id'') = aid \<and> strip (field r ''Games'') = g)"
    by (cases new_results)
      (auto simp: build_index_def Let_def set_summer_foldl_add_result new_index_def)
  have ww: "\<And>g. g \<in> set (winter_lookup (build_index_winter results) aid) \<longleftrightarrow>
      aid \<noteq> [] \<and> matches WINTER_RE g \<and>
      (\<exists>r\<in>set results. strip (field r ''athlete_id'') = aid \<and> strip (field r ''Games'') = g)"
    by (auto simp: build_index_winter_def set_winter_foldl_add_result_winter new_index_def)
  have shape: "\<exists>y. length y = 4 \<and> list_all is_digit y \<and> take 4 g = y \<and> g = y @ w"
    if "matches (Atom is_digit (Rep 4) # lit w @ [Eos]) g" "strip x = g" for w x
  proof -
    from stripped_edition[of w x] that obtain y where
      "length y = 4" "list_all is_digit y" "g = y @ w" by auto
    then show ?thesis by auto
  qed
  have ew: "\<exists>y. length y = 4 \<and> list_all is_digit y \<and> MIN_YEAR \<le> int_of_digits y \<and>
           g = y @ '' Winter Olympics''"
    if "g \<in> set (winter_lookup (build_index results new_results) aid)"
  proof -
    from that w[of g] obtain r where
      m: "matches WINTER_RE g" "MIN_YEAR \<le> int_of_digits (take 4 g)" "strip (field r ''Games'') = g"
      by blast
    from shape[OF m(1)[unfolded WINTER_RE_def] m(3)] obtain y where
      y: "length y = 4" "list_all is_digit y" "take 4 g = y" "g = y @ '' Winter Olympics''"
      by blast
    have "MIN_YEAR \<le> int_of_digits y" using m(2) y(3) by simp
    then show ?thesis using y(1,2,4) by blast
  qed
  have es: "\<exists>y. length y = 4 \<and> list_all is_digit y \<and> MIN_YEAR \<le> int_of_digits y \<and>
           g = y @ '' Summer Olympics''"
    if "g \<in> set (summer_lookup (build_index results new_results) aid)"
  proof -
    from that s obtain r where
      m: "matches SUMMER_RE g" "MIN_YEAR \<le> int_of_digits (take 4 g)" "strip (field r ''Games'') = g"
      by blast
    from shape[OF m(1)[unfolded SUMMER_RE_def] m(3)] obtain y where
      y: "length y = 4" "list_all is_digit y" "take 4 g = y" "g = y @ '' Summer Olympics''"
      by blast
    have "MIN_YEAR \<le> int_of_digits y" using m(2) y(3) by simp
    then show ?thesis using y(1,2,4) by blast
  qed
  have eww: "\<exists>y. length y = 4 \<and> list_all is_digit y \<and> g = y @ '' Winter Olympics''"
    if "g \<in> set (winter_lookup (build_index_winter results) aid)"
  proof -
    from that ww[of g] obtain r where
      m: "matches WINTER_RE g" "strip (field r ''Games'') = g"
      by blast
    from shape[OF m(1)[unfolded WINTER_RE_def] m(2)] show ?thesis by blast
  qed
  show ?thesis
    using w[of g] s ww[of g] w[of "''1920 Winter Olympics''"]
      w[of "''1924 Winter Youth Olympics''"] ww[of "''1924 Winter Youth Olympics''"]
      year_1920_too_early youth_is_no_match ew es eww
    by blast
qed

theorem index_retains_witness:
  "''1924 Winter Olympics'' \<in> set (winter_lookup (build_index example_results None) ''7'') \<and>
   ''1920 Winter Olympics'' \<in> set (winter_lookup (build_index_winter example_results) ''7'')"
proof -
  have a: "''7'' \<noteq> [] \<and> matches WINTER_RE ''1924 Winter Olympics'' \<and>
      MIN_YEAR \<le> int_of_digits (take 4 ''1924 Winter Olympics'') \<and>
      (\<exists>r\<in>set (example_results @ (case None of None \<Rightarrow> [] | Some rows \<Rightarrow> rows)).
          strip (field r ''athlete_id'') = ''7'' \<and>
          strip (field r ''Games'') = ''1924 Winter Olympics'')"
    by (simp add: example_results_def patterns char_classes MIN_YEAR_def int_of_digits_def
        digit_val_def field_def strip_def)
  have b: "''7'' \<noteq> [] \<and> matches WINTER_RE ''1920 Winter Olympics'' \<and>
      (\<exists>r\<in>set example_results. strip (field r ''athlete_id'') = ''7'' \<and>
          strip (field r ''Games'') = ''1920 Winter Olympics'')"
    by (simp add: example_results_def patterns char_classes field_def strip_def)
  from index_retains[of "''1924 Winter Olympics''" example_results None "''7''"] a
  have 1: "''1924 Winter Olympics'' \<in> set (winter_lookup (build_index example_results None) ''7'')"
    by blast
  from index_retains[of "''1920 Winter Olympics''" example_results None "''7''"] b
  have 2: "''1920 Winter Olympics'' \<in> set (winter_lookup (build_index_winter example_results) ''7'')"
    by blast
  from 1 2 show ?thesis by blast
qed

subsection \<open>Classification from the index and from the cache\<close>

text \<open>The first loop of \<open>classify_athletes\<close> appends to its two lists, so it can be
  read off list by list.\<close>

lemma lookup_step_acc:
  "lookup_step seen c out_fields season lookup kf (S, N) r =
     (S @ fst (lookup_step seen c out_fields season lookup kf ([], []) r),
      N @ snd (lookup_step seen c out_fields season lookup kf ([], []) r))"
  by (simp add: lookup_step_def Let_def split: option.splits)

lemma foldl_lookup_step_acc:
  "foldl (lookup_step seen c out_fields season lookup kf) (S, N) rows =
     (S @ fst (foldl (lookup_step seen c out_fields season lookup kf) ([], []) rows),
      N @ snd (foldl (lookup_step seen c out_fields season lookup kf) ([], []) rows))"
proof (induction rows arbitrary: S N)
  case Nil
  show ?case by simp
next
  case (Cons r rows)
  obtain S1 N1 where s1: "lookup_step seen c out_fields season lookup kf ([], []) r = (S1, N1)"
    by (cases "lookup_step seen c out_fields season lookup kf ([], []) r")
  have a: "lookup_step seen c out_fields season lookup kf (S, N) r = (S @ S1, N @ N1)"
    using lookup_step_acc[of seen c out_fields season lookup kf S N r] s1 by simp
  show ?case
    unfolding foldl_Cons a s1
    using Cons.IH[of "S @ S1" "N @ N1"] Cons.IH[of S1 N1] by simp
qed

lemma foldl_lookup_step_append:
  "foldl (lookup_step seen c out_fields season lookup kf) ([], []) (xs @ ys) =
     (fst (foldl (lookup_step seen c out_fields season lookup kf) ([], []) xs) @
      fst (foldl (lookup_step seen c out_fields season lookup kf) ([], []) ys),
      snd (foldl (lookup_step seen c out_fields season lookup kf) ([], []) xs) @
      snd (foldl (lookup_step seen c out_fields season lookup kf) ([], []) ys))"
proof -
  obtain S N where sn: "foldl (lookup_step seen c out_fields season lookup kf) ([], []) xs = (S, N)"
    by (cases "foldl (lookup_step seen c out_fields season lookup kf) ([], []) xs")
  show ?thesis
    unfolding foldl_append sn
    using foldl_lookup_step_acc[of seen c out_fields season lookup kf S N ys] by simp
qed

lemma lookup_step_known_empty:
  "strip (field r ''athlete_id'') \<in> seen \<Longrightarrow> lookup (strip (field r ''athlete_id'')) = [] \<Longrightarrow>
   lookup_step seen c out_fields season lookup kf acc r = acc"
  by (cases acc) (simp add: lookup_step_def Let_def)

lemma lookup_step_winter_known_empty:
  "strip (field r ''athlete_id'') \<in> seen \<Longrightarrow> lookup (strip (field r ''athlete_id'')) = [] \<Longrightarrow>
   lookup_step_winter seen out_fields lookup kf acc r = acc"
  by (cases acc) (simp add: lookup_step_winter_def Let_def)

lemma example_index_seen: "strip (field example_athlete ''athlete_id'') \<in> seen_ids (build_index example_results None)"
  by (simp add: example_athlete_def example_results_def build_index_def add_result_def new_index_def
      sort_lookups_def field_def strip_def char_classes Let_def)

lemma example_index_summer: "summer_lookup (build_index example_results None) (strip (field example_athlete ''athlete_id'')) = []"
  by (simp add: example_athlete_def example_results_def build_index_def add_result_def new_index_def
      sort_lookups_def field_def strip_def char_classes patterns Let_def)

text \<open>
  Claim C3. An athlete whose identifier is in \<open>seen_ids\<close> and whose list in the
  season's lookup is empty adds nothing: classified alone, the result has no season
  row and no no-match row and the fetcher is as before (no call of \<open>_fetch\<close>, no
  request, no sleep); inside any list of athletes, the result, fetcher included, is
  the one without that athlete. The same holds for \<open>classify_athletes\<close> of
  \<open>filter-winter.py\<close>.
\<close>

theorem known_without_editions_is_skipped:
  assumes "strip (field r ''athlete_id'') \<in> seen" "lookup (strip (field r ''athlete_id'')) = []"
  shows "classify_athletes net seen c [r] out_fields season lookup kf st = (([], []), st) \<and>
         classify_athletes net seen c (xs @ r # ys) out_fields season lookup kf st =
           classify_athletes net seen c (xs @ ys) out_fields season lookup kf st \<and>
         classify_athletes_winter net seen [r] out_fields lookup kf st = (([], []), st) \<and>
         classify_athletes_winter net seen (xs @ r # ys) out_fields lookup kf st =
           classify_athletes_winter net seen (xs @ ys) out_fields lookup kf st"
  using assms
  by (simp add: classify_athletes_def classify_athletes_winter_def lookup_step_known_empty
      lookup_step_winter_known_empty)

theorem known_without_editions_is_skipped_witness:
  "strip (field example_athlete ''athlete_id'') \<in> seen_ids (build_index example_results None) \<and>
   summer_lookup (build_index example_results None) (strip (field example_athlete ''athlete_id'')) = [] \<and>
   classify_athletes throttled (seen_ids (build_index example_results None)) (\<lambda>_. None)
       [example_athlete] [''athlete_id'', ''Games''] Summer
       (summer_lookup (build_index example_results None)) (Some born_state) new_fetcher =
     (([], []), new_fetcher)"
proof -
  note t = known_without_editions_is_skipped[where r = example_athlete
      and seen = "seen_ids (build_index example_results None)"
      and lookup = "summer_lookup (build_index example_results None)"
      and net = throttled and c = "\<lambda>_. None" and out_fields = "[''athlete_id'', ''Games'']"
      and season = Summer and kf = "Some born_state" and st = new_fetcher]
  from t[OF example_index_seen example_index_summer] example_index_seen example_index_summer
  show ?thesis by blast
qed

lemma scrape_step_acc:
  "scrape_step net out_fields season kf ((S, M), st) r =
     ((S @ fst (fst (scrape_step net out_fields season kf (([], []), st) r)),
       M @ snd (fst (scrape_step net out_fields season kf (([], []), st) r))),
      snd (scrape_step net out_fields season kf (([], []), st) r))"
proof -
  obtain g st' where g: "(if strip (field r ''athlete_id'') \<noteq> []
      then games_from_page net (strip (field r ''athlete_id'')) season st
      else search_and_find_season net (field r ''Used name'') season st) = (g, st')"
    by (metis surj_pair)
  show ?thesis
    unfolding scrape_step_def Let_def prod.case g
    by (cases g) simp_all
qed

lemma foldl_scrape_step_acc:
  "foldl (scrape_step net out_fields season kf) ((S, M), st) rows =
     ((S @ fst (fst (foldl (scrape_step net out_fields season kf) (([], []), st) rows)),
       M @ snd (fst (foldl (scrape_step net out_fields season kf) (([], []), st) rows))),
      snd (foldl (scrape_step net out_fields season kf) (([], []), st) rows))"
proof (induction rows arbitrary: S M st)
  case Nil
  show ?case by simp
next
  case (Cons r rows)
  obtain S1 M1 st1 where s1: "scrape_step net out_fields season kf (([], []), st) r = ((S1, M1), st1)"
    by (metis surj_pair)
  have a: "scrape_step net out_fields season kf ((S, M), st) r = ((S @ S1, M @ M1), st1)"
    using scrape_step_acc[of net out_fields season kf S M st r] s1 by simp
  show ?case
    unfolding foldl_Cons a s1
    using Cons.IH[of "S @ S1" "M @ M1" st1] Cons.IH[of S1 M1 st1] by simp
qed

lemma classify_athletes_eq:
  "classify_athletes net seen c athletes out_fields season lookup kf st =
     (let p = foldl (lookup_step seen c out_fields season lookup kf) ([], []) athletes;
          q = foldl (scrape_step net out_fields season kf) (([], []), st) (snd p)
      in ((fst p @ fst (fst q), snd (fst q)), snd q))"
proof -
  obtain S N where p: "foldl (lookup_step seen c out_fields season lookup kf) ([], []) athletes = (S, N)"
    by (metis surj_pair)
  show ?thesis
    unfolding classify_athletes_def p Let_def
    using foldl_scrape_step_acc[of net out_fields season kf S "[]" st N]
    by (cases "N = []") simp_all
qed

lemma lookup_step_cached:
  "strip (field r ''athlete_id'') \<notin> seen \<Longrightarrow>
   cache_get c (strip (field r ''athlete_id'')) season = Some games \<Longrightarrow>
   lookup_step seen c out_fields season lookup kf ([], []) r =
     (if games = [] then []
      else [(row_key kf r, build_out_row r (join ''; '' (sort games)) out_fields)], [])"
  by (simp add: lookup_step_def Let_def)

lemma field_build_out_row_Games: "field (build_out_row r g out_fields) ''Games'' = g"
  by (simp add: field_def build_out_row_def update_conv')

lemma example_cache_hit:
  "cache_get (build_output_cache example_files) (strip (field example_cached_athlete ''athlete_id'')) Winter =
     Some [''1924 Winter Olympics'', ''1928 Winter Olympics'']"
  by (simp add: example_files_def example_cached_athlete_def build_output_cache_def cache_season_def
      cache_file_def cache_row_def cache_add_def cache_get_def split_games_def path_join_def
      WINTER_DIR_def SUMMER_DIR_def field_def strip_def char_classes Let_def)

lemma example_cached_unseen:
  "strip (field example_cached_athlete ''athlete_id'') \<notin> seen_ids (build_index example_results None)"
  by (simp add: example_cached_athlete_def example_results_def build_index_def add_result_def new_index_def
      sort_lookups_def field_def strip_def char_classes Let_def)

text \<open>
  Claim C4. An athlete whose identifier is not in \<open>seen_ids\<close> and for whom the cache
  holds a list for the season is resolved without the fetcher: classified alone, the
  fetcher is returned as it was, and the only row, present when the cached list is
  not empty, has as \<open>Games\<close> the cached list, sorted and joined by \<open>"; "\<close>. Inside
  any list of athletes the fetcher and the no-match rows end up as they do without
  that athlete, and the athlete's row is among the season rows.
\<close>

theorem cached_athlete_is_not_fetched:
  assumes "strip (field r ''athlete_id'') \<notin> seen"
    and "cache_get c (strip (field r ''athlete_id'')) season = Some games"
  shows "classify_athletes net seen c [r] out_fields season lookup kf st =
           ((if games = [] then []
             else [(row_key kf r, build_out_row r (join ''; '' (sort games)) out_fields)], []), st) \<and>
         field (build_out_row r (join ''; '' (sort games)) out_fields) ''Games'' =
           join ''; '' (sort games) \<and>
         snd (classify_athletes net seen c (xs @ r # ys) out_fields season lookup kf st) =
           snd (classify_athletes net seen c (xs @ ys) out_fields season lookup kf st) \<and>
         snd (fst (classify_athletes net seen c (xs @ r # ys) out_fields season lookup kf st)) =
           snd (fst (classify_athletes net seen c (xs @ ys) out_fields season lookup kf st)) \<and>
         (games \<noteq> [] \<longrightarrow>
            (row_key kf r, build_out_row r (join ''; '' (sort games)) out_fields) \<in>
              set (fst (fst (classify_athletes net seen c (xs @ r # ys) out_fields season lookup kf st))))"
proof -
  let ?F = "\<lambda>rows. foldl (lookup_step seen c out_fields season lookup kf) ([], []) rows"
  have one: "?F [r] = (if games = [] then []
      else [(row_key kf r, build_out_row r (join ''; '' (sort games)) out_fields)], [])"
    using lookup_step_cached[OF assms] by simp
  have app: "?F (xs @ r # ys) = (fst (?F xs) @ fst (?F [r]) @ fst (?F ys), snd (?F xs) @ snd (?F ys))"
    using foldl_lookup_step_append[of seen c out_fields season lookup kf xs "[r] @ ys"]
      foldl_lookup_step_append[of seen c out_fields season lookup kf "[r]" ys] one
    by simp
  have app2: "?F (xs @ ys) = (fst (?F xs) @ fst (?F ys), snd (?F xs) @ snd (?F ys))"
    by (rule foldl_lookup_step_append)
  have 1: "classify_athletes net seen c [r] out_fields season lookup kf st =
           ((if games = [] then []
             else [(row_key kf r, build_out_row r (join ''; '' (sort games)) out_fields)], []), st)"
    unfolding classify_athletes_def one by simp
  have 3: "snd (classify_athletes net seen c (xs @ r # ys) out_fields season lookup kf st) =
           snd (classify_athletes net seen c (xs @ ys) out_fields season lookup kf st)"
    unfolding classify_athletes_eq app app2 by (simp add: Let_def)
  have 4: "snd (fst (classify_athletes net seen c (xs @ r # ys) out_fields season lookup kf st)) =
           snd (fst (classify_athletes net seen c (xs @ ys) out_fields season lookup kf st))"
    unfolding classify_athletes_eq app app2 by (simp add: Let_def)
  have 5: "games \<noteq> [] \<longrightarrow>
            (row_key kf r, build_out_row r (join ''; '' (sort games)) out_fields) \<in>
              set (fst (fst (classify_athletes net seen c (xs @ r # ys) out_fields season lookup kf st)))"
    unfolding classify_athletes_eq app one by (simp add: Let_def)
  from 1 3 4 5 field_build_out_row_Games show ?thesis by blast
qed

theorem cached_athlete_is_not_fetched_witness:
  "strip (field example_cached_athlete ''athlete_id'') \<notin> seen_ids (build_index example_results None) \<and>
   cache_get (build_output_cache example_files) (strip (field example_cached_athlete ''athlete_id'')) Winter =
     Some [''1924 Winter Olympics'', ''1928 Winter Olympics''] \<and>
   classify_athletes throttled (seen_ids (build_index example_results None))
       (build_output_cache example_files) [example_cached_athlete] [''athlete_id'', ''Games''] Winter
       (winter_lookup (build_index example_results None)) None new_fetcher =
     (([([], [(''athlete_id'', '' 9''), (''Games'', ''1924 Winter Olympics; 1928 Winter Olympics'')])], []),
      new_fetcher)"
proof -
  note t = cached_athlete_is_not_fetched[where r = example_cached_athlete
      and seen = "seen_ids (build_index example_results None)"
      and c = "build_output_cache example_files" and season = Winter
      and games = "[''1924 Winter Olympics'', ''1928 Winter Olympics'']"
      and lookup = "winter_lookup (build_index example_results None)"
      and net = throttled and out_fields = "[''athlete_id'', ''Games'']"
      and kf = None and st = new_fetcher]
  have row: "(if [''1924 Winter Olympics'', ''1928 Winter Olympics''] = [] then []
       else [(row_key None example_cached_athlete,
          build_out_row example_cached_athlete
            (join ''; '' (sort [''1924 Winter Olympics'', ''1928 Winter Olympics'']))
            [''athlete_id'', ''Games''])]) =
     [([], [(''athlete_id'', '' 9''), (''Games'', ''1924 Winter Olympics; 1928 Winter Olympics'')])]"
    by (simp add: row_key_def build_out_row_def example_cached_athlete_def field_def)
  from t[OF example_cached_unseen example_cache_hit] example_cached_unseen example_cache_hit
  show ?thesis unfolding row by blast
qed

subsection \<open>Rows of an unrecognised state\<close>

lemma group_by_state_foldl:
  "foldl (\<lambda>m kr. m(fst kr := m (fst kr) @ [snd kr])) m rows state =
     m state @ map snd (filter (\<lambda>kr. fst kr = state) rows)"
  by (induction rows arbitrary: m) auto

lemma group_by_state_eq:
  "group_by_state rows state = map snd (filter (\<lambda>kr. fst kr = state) rows)"
  by (simp add: group_by_state_def group_by_state_foldl)

lemma group_by_state_drop:
  "state \<noteq> key \<Longrightarrow>
   group_by_state (xs @ (key, row) # ys) state = group_by_state (xs @ ys) state"
  by (simp add: group_by_state_eq)

lemma count_table_cong:
  "(\<And>state. state \<in> set states \<Longrightarrow> f state = g state) \<Longrightarrow> count_table states f = count_table states g"
proof -
  assume h: "\<And>state. state \<in> set states \<Longrightarrow> f state = g state"
  have a: "filter (\<lambda>state. 0 < length (f state)) (sort states) =
           filter (\<lambda>state. 0 < length (g state)) (sort states)"
    by (rule filter_cong) (simp_all add: h)
  have b: "map (\<lambda>state. [(''state'', state), (''number'', str_nat (length (f state)))])
             (filter (\<lambda>state. 0 < length (g state)) (sort states)) =
           map (\<lambda>state. [(''state'', state), (''number'', str_nat (length (g state)))])
             (filter (\<lambda>state. 0 < length (g state)) (sort states))"
    by (rule map_cong) (simp_all add: h)
  show ?thesis unfolding count_table_def a b ..
qed

lemma foldl_write_state_cong:
  "(\<And>state. state \<in> set sts \<Longrightarrow> f state = g state) \<Longrightarrow>
   foldl (write_state out_dir out_fields f) fs sts = foldl (write_state out_dir out_fields g) fs sts"
  by (induction sts arbitrary: fs) (simp_all add: write_state_def)

lemma write_season_output_cong:
  assumes "\<And>state. state \<in> set states \<Longrightarrow> group_by_state rows1 state = group_by_state rows2 state"
  shows "write_season_output states out_dir rows1 e nm out_fields ef fs =
         write_season_output states out_dir rows2 e nm out_fields ef fs"
proof -
  have a: "count_table states (group_by_state rows1) = count_table states (group_by_state rows2)"
    using assms by (rule count_table_cong)
  have b: "\<And>fs. foldl (write_state out_dir out_fields (group_by_state rows1)) fs (sort states) =
        foldl (write_state out_dir out_fields (group_by_state rows2)) fs (sort states)"
    using assms by (intro foldl_write_state_cong) simp
  have c: "map (group_by_state rows1) (sort states) = map (group_by_state rows2) (sort states)"
    using assms by simp
  show ?thesis
    unfolding write_season_output_def Let_def a b c ..
qed

lemma write_winter_output_eq:
  "write_winter_output states rows e nm out_fields ef fs =
   write_season_output states WINTER_DIR rows e nm out_fields ef fs"
  by (simp add: write_winter_output_def write_season_output_def)

text \<open>
  Claim C10. A season row of the state-grouped athletes whose key is not in
  \<open>states_list\<close> changes none of the files written: the count table, the tables by
  state, \<open>all-states.csv\<close>, \<open>us-born-elsewhere.csv\<close> and \<open>no-match.csv\<close> are the
  ones written without that row, in \<open>write_season_output\<close> and in the statements of
  \<open>filter-winter.py\<close> alike.
\<close>

theorem unrecognised_state_is_not_written:
  assumes "key \<notin> set states"
  shows "write_season_output states out_dir (xs @ (key, row) # ys) elsewhere_rows no_match_all
           out_fields elsewhere_fields fs =
         write_season_output states out_dir (xs @ ys) elsewhere_rows no_match_all
           out_fields elsewhere_fields fs \<and>
         write_winter_output states (xs @ (key, row) # ys) elsewhere_rows no_match_all
           out_fields elsewhere_fields fs =
         write_winter_output states (xs @ ys) elsewhere_rows no_match_all
           out_fields elsewhere_fields fs"
proof -
  have "\<And>state. state \<in> set states \<Longrightarrow>
      group_by_state (xs @ (key, row) # ys) state = group_by_state (xs @ ys) state"
    using assms by (intro group_by_state_drop) auto
  then show ?thesis
    unfolding write_winter_output_eq
    using write_season_output_cong[of states "xs @ (key, row) # ys" "xs @ ys"] by blast
qed

theorem unrecognised_state_is_not_written_witness:
  "''Unknown'' \<notin> set [''Montana'', ''Idaho''] \<and>
   write_season_output [''Montana'', ''Idaho''] WINTER_DIR
       ([] @ (''Unknown'', example_athlete) # [(''Montana'', example_athlete)]) [] []
       [''athlete_id'', ''Games''] [''athlete_id''] (\<lambda>_. None) =
   write_season_output [''Montana'', ''Idaho''] WINTER_DIR
       ([] @ [(''Montana'', example_athlete)]) [] []
       [''athlete_id'', ''Games''] [''athlete_id''] (\<lambda>_. None)"
proof -
  have h: "''Unknown'' \<notin> set [''Montana'', ''Idaho'']" by simp
  from unrecognised_state_is_not_written[OF h] h show ?thesis by blast
qed

subsection \<open>The cache of earlier output\<close>

lemma cache_file_eq:
  "cache_file fs out_dir season c fname = foldl (cache_row season) c (file_rows fs (path_join out_dir fname))"
  by (simp add: cache_file_def file_rows_def split: option.splits)

lemma build_output_cache_eq:
  "build_output_cache fs =
     foldl (cache_row Summer) (foldl (cache_row Winter) (\<lambda>_. None) (matched_rows fs Winter))
       (matched_rows fs Summer)"
  by (simp add: build_output_cache_def cache_season_def cache_file_eq matched_rows_def)

lemma cache_get_empty [simp]: "cache_get (\<lambda>_. None) aid s = None"
  by (simp add: cache_get_def)

lemma cache_get_cache_add:
  "cache_get (cache_add c a s g) a' s' =
     (if a' = a \<and> s' = s
      then Some (case cache_get c a s of None \<Rightarrow> sort g | Some e \<Rightarrow> sort (remdups (e @ g)))
      else cache_get c a' s')"
  by (auto simp: cache_get_def cache_add_def Let_def split: option.splits)

lemma cache_add_entry:
  "cache_add c a s g a' = None \<longleftrightarrow> a' \<noteq> a \<and> c a' = None"
  by (auto simp: cache_add_def Let_def split: option.splits)

lemma cache_get_cache_row:
  "cache_get (cache_row s c r) a' s' =
     (if strip (field r ''athlete_id'') \<noteq> [] \<and> a' = strip (field r ''athlete_id'') \<and> s' = s
      then Some (case cache_get c a' s of
                   None \<Rightarrow> sort (split_games (strip (field r ''Games'')))
                 | Some e \<Rightarrow> sort (remdups (e @ split_games (strip (field r ''Games'')))))
      else cache_get c a' s')"
  by (simp add: cache_row_def Let_def cache_get_cache_add)

lemma cache_row_entry:
  "cache_row s c r a' = None \<longleftrightarrow>
     c a' = None \<and> (strip (field r ''athlete_id'') = [] \<or> a' \<noteq> strip (field r ''athlete_id''))"
  by (auto simp: cache_row_def Let_def cache_add_entry)

lemma foldl_cache_row_entry:
  "foldl (cache_row s) c rows aid = None \<longleftrightarrow>
     c aid = None \<and> (aid = [] \<or> (\<forall>r\<in>set rows. strip (field r ''athlete_id'') \<noteq> aid))"
proof (induction rows arbitrary: c)
  case Nil
  show ?case by simp
next
  case (Cons r rows)
  show ?case unfolding foldl_Cons Cons.IH cache_row_entry by auto
qed

lemma cache_get_foldl_other:
  "s' \<noteq> s \<Longrightarrow> cache_get (foldl (cache_row s) c rows) aid s' = cache_get c aid s'"
  by (induction rows arbitrary: c) (simp_all add: cache_get_cache_row)

lemma cache_get_foldl_None:
  "cache_get (foldl (cache_row s) c rows) aid s = None \<longleftrightarrow>
     cache_get c aid s = None \<and> (aid = [] \<or> (\<forall>r\<in>set rows. strip (field r ''athlete_id'') \<noteq> aid))"
proof (induction rows arbitrary: c)
  case Nil
  show ?case by simp
next
  case (Cons r rows)
  show ?case unfolding foldl_Cons Cons.IH cache_get_cache_row by auto
qed

lemma known_games_cache_row:
  "known_games (cache_row s c r) aid s =
     known_games c aid s \<union>
     (if aid \<noteq> [] \<and> strip (field r ''athlete_id'') = aid
      then set (split_games (strip (field r ''Games''))) else {})"
  by (auto simp: known_games_def cache_get_cache_row split: option.splits)

lemma known_games_foldl:
  "known_games (foldl (cache_row s) c rows) aid s =
     known_games c aid s \<union> (if aid \<noteq> [] then listed_games rows aid else {})"
proof (induction rows arbitrary: c)
  case Nil
  show ?case by (simp add: listed_games_def)
next
  case (Cons r rows)
  show ?case unfolding foldl_Cons Cons.IH known_games_cache_row
    by (auto simp: listed_games_def)
qed

lemma sorted_cache_row:
  assumes "\<And>a s' e. cache_get c a s' = Some e \<Longrightarrow> sorted e"
    and "cache_get (cache_row s c r) aid s1 = Some g"
  shows "sorted g"
  using assms by (auto simp: cache_get_cache_row split: if_splits option.splits)

lemma sorted_foldl_cache_row:
  assumes "\<And>a s' e. cache_get c a s' = Some e \<Longrightarrow> sorted e"
    and "cache_get (foldl (cache_row s) c rows) aid s1 = Some g"
  shows "sorted g"
  using assms
proof (induction rows arbitrary: c)
  case Nil
  then show ?case by simp
next
  case (Cons r rows)
  have "\<And>a s' e. cache_get (cache_row s c r) a s' = Some e \<Longrightarrow> sorted e"
    using sorted_cache_row[of c s r] Cons.prems(1) by blast
  from Cons.IH[OF this] Cons.prems(2) show ?case by simp
qed

lemma sorted_build_output_cache:
  assumes "cache_get (build_output_cache fs) aid s = Some g"
  shows "sorted g"
proof -
  have w: "\<And>a s' e. cache_get (foldl (cache_row Winter) (\<lambda>_. None) (matched_rows fs Winter)) a s' = Some e
      \<Longrightarrow> sorted e"
    by (rule sorted_foldl_cache_row[of "\<lambda>_. None" Winter]) simp_all
  show ?thesis
  proof (rule sorted_foldl_cache_row[where s = Summer and rows = "matched_rows fs Summer"
        and c = "foldl (cache_row Winter) (\<lambda>_. None) (matched_rows fs Winter)"
        and aid = aid and ?s1.0 = s])
    show "\<And>a s' e. cache_get (foldl (cache_row Winter) (\<lambda>_. None) (matched_rows fs Winter)) a s' = Some e
      \<Longrightarrow> sorted e"
      by (rule w)
    show "cache_get (foldl (cache_row Summer)
        (foldl (cache_row Winter) (\<lambda>_. None) (matched_rows fs Winter))
        (matched_rows fs Summer)) aid s = Some g"
      using assms unfolding build_output_cache_eq .
  qed
qed

lemma cache_get_build_None:
  "cache_get (build_output_cache fs) aid s = None \<longleftrightarrow>
     aid = [] \<or> (\<forall>r\<in>set (matched_rows fs s). strip (field r ''athlete_id'') \<noteq> aid)"
  by (cases s)
    (simp_all add: build_output_cache_eq cache_get_foldl_None cache_get_foldl_other)

lemma known_games_build:
  "known_games (build_output_cache fs) aid s =
     (if aid \<noteq> [] then listed_games (matched_rows fs s) aid else {})"
proof (cases s)
  case Winter
  have "known_games (build_output_cache fs) aid Winter =
        known_games (foldl (cache_row Winter) (\<lambda>_. None) (matched_rows fs Winter)) aid Winter"
    unfolding build_output_cache_eq known_games_def by (simp add: cache_get_foldl_other)
  then show ?thesis
    unfolding Winter known_games_foldl by (simp add: known_games_def)
next
  case Summer
  have "known_games (foldl (cache_row Winter) (\<lambda>_. None) (matched_rows fs Winter)) aid Summer = {}"
    unfolding known_games_def by (simp add: cache_get_foldl_other)
  then show ?thesis
    unfolding Summer build_output_cache_eq known_games_foldl by simp
qed

lemma build_entry_None:
  "build_output_cache fs aid = None \<longleftrightarrow>
     aid = [] \<or> (\<forall>r\<in>set (matched_rows fs Winter @ matched_rows fs Summer).
                   strip (field r ''athlete_id'') \<noteq> aid)"
  unfolding build_output_cache_eq foldl_cache_row_entry by auto

lemma no_match_path:
  "path_join d ''all-states.csv'' \<noteq> path_join dir ''no-match.csv'' \<and>
   path_join d ''us-born-elsewhere.csv'' \<noteq> path_join dir ''no-match.csv''"
proof -
  have a: "take 5 (rev (path_join dir ''no-match.csv'')) = ''vsc.h''"
    by (simp add: path_join_def)
  have b: "take 5 (rev (path_join d ''all-states.csv'')) = ''vsc.s''"
    by (simp add: path_join_def)
  have c: "take 5 (rev (path_join d ''us-born-elsewhere.csv'')) = ''vsc.e''"
    by (simp add: path_join_def)
  have 1: "path_join dir ''no-match.csv'' \<noteq> path_join d ''all-states.csv''"
  proof
    assume "path_join dir ''no-match.csv'' = path_join d ''all-states.csv''"
    then have "take 5 (rev (path_join dir ''no-match.csv'')) = take 5 (rev (path_join d ''all-states.csv''))"
      by (rule arg_cong)
    then show False unfolding a b by simp
  qed
  have 2: "path_join dir ''no-match.csv'' \<noteq> path_join d ''us-born-elsewhere.csv''"
  proof
    assume "path_join dir ''no-match.csv'' = path_join d ''us-born-elsewhere.csv''"
    then have "take 5 (rev (path_join dir ''no-match.csv'')) = take 5 (rev (path_join d ''us-born-elsewhere.csv''))"
      by (rule arg_cong)
    then show False unfolding a c by simp
  qed
  from 1 2 show ?thesis by (simp add: eq_commute)
qed

lemma matched_rows_no_match:
  "matched_rows (fs(path_join dir ''no-match.csv'' := t)) s = matched_rows fs s"
  using no_match_path[where dir = dir and d = "season_dir s"]
  by (simp add: matched_rows_def file_rows_def)

lemma build_output_cache_no_match:
  "build_output_cache (fs(path_join dir ''no-match.csv'' := t)) = build_output_cache fs"
  by (simp add: build_output_cache_eq matched_rows_no_match)

lemma fetch_calls_fetch_attempts:
  "fetch_calls (snd (fetch_attempts net url k delay st)) = fetch_calls st"
proof (induction k arbitrary: delay st)
  case 0
  show ?case by simp
next
  case (Suc k)
  show ?case
    by (cases "net (requests st) url") (simp_all add: Let_def Suc.IH)
qed

lemma requests_fetch_attempts:
  "requests st \<le> requests (snd (fetch_attempts net url k delay st))"
proof (induction k arbitrary: delay st)
  case 0
  show ?case by simp
next
  case (Suc k)
  show ?case
  proof (cases "net (requests st) url")
    case (HTTPError code)
    then show ?thesis
      using Suc.IH[where delay = "min (delay * 2) MAX_DELAY"
          and st = "st\<lparr>requests := Suc (requests st), sleeps := sleeps st @ [delay]\<rparr>"]
      by (simp add: Let_def)
  qed (simp_all add: Let_def)
qed

lemma requests_fetch_attempts_Suc:
  "requests st < requests (snd (fetch_attempts net url (Suc k) delay st))"
proof (cases "net (requests st) url")
  case (HTTPError code)
  then show ?thesis
    using requests_fetch_attempts[where
        st = "st\<lparr>requests := Suc (requests st), sleeps := sleeps st @ [delay]\<rparr>"
        and net = net and url = url and k = k and delay = "min (delay * 2) MAX_DELAY"]
    by (simp add: Let_def)
qed (simp_all add: Let_def)

lemma fetch_counts:
  "fetch_calls (snd (fetch net url st)) = Suc (fetch_calls st) \<and>
   requests st < requests (snd (fetch net url st))"
proof -
  have m: "MAX_RETRIES = Suc 5" by (simp add: MAX_RETRIES_def)
  have a: "fetch_calls (snd (fetch net url st)) = Suc (fetch_calls st)"
    unfolding fetch_def fetch_calls_fetch_attempts by simp
  have b: "requests st < requests (snd (fetch net url st))"
    unfolding fetch_def m
    using requests_fetch_attempts_Suc[where st = "st\<lparr>fetch_calls := Suc (fetch_calls st)\<rparr>"
        and net = net and url = url and k = 5 and delay = "current_delay st"]
    by (simp del: fetch_attempts.simps)
  from a b show ?thesis by blast
qed

lemma games_from_page_counts:
  "fetch_calls (snd (games_from_page net aid s st)) = Suc (fetch_calls st) \<and>
   requests st < requests (snd (games_from_page net aid s st))"
proof -
  obtain h st' where f: "fetch net (BASE_URL @ ''/athletes/'' @ aid) st = (h, st')"
    by (metis surj_pair)
  have "snd (games_from_page net aid s st) = st'"
    unfolding games_from_page_def f by (cases h) simp_all
  then show ?thesis
    using fetch_counts[of net "BASE_URL @ ''/athletes/'' @ aid" st] f by simp
qed

lemma lookup_step_unseen:
  "strip (field r ''athlete_id'') \<notin> seen \<Longrightarrow>
   cache_get c (strip (field r ''athlete_id'')) season = None \<Longrightarrow>
   lookup_step seen c out_fields season lookup kf ([], []) r = ([], [r])"
  by (simp add: lookup_step_def Let_def)

lemma snd_scrape_step_id:
  "strip (field r ''athlete_id'') \<noteq> [] \<Longrightarrow>
   snd (scrape_step net out_fields season kf (acc, st) r) =
     snd (games_from_page net (strip (field r ''athlete_id'')) season st)"
proof -
  assume ne: "strip (field r ''athlete_id'') \<noteq> []"
  obtain S M where acc: "acc = (S, M)" by (cases acc)
  obtain g st' where g: "games_from_page net (strip (field r ''athlete_id'')) season st = (g, st')"
    by (metis surj_pair)
  show ?thesis
    unfolding scrape_step_def Let_def acc prod.case using ne g
    by (cases g) simp_all
qed

lemma example_matched_rows:
  "matched_rows example_files Winter =
     [[(''athlete_id'', ''9''), (''Games'', ''1928 Winter Olympics; 1924 Winter Olympics'')]] \<and>
   matched_rows example_files Summer = []"
  by (simp add: matched_rows_def file_rows_def example_files_def path_join_def WINTER_DIR_def
      SUMMER_DIR_def)

text \<open>
  Claim C5. \<open>build_output_cache\<close> does not read \<open>no-match.csv\<close>: whatever that file
  holds, in whatever directory, the cache is the same. An athlete listed in none of
  the matched tables has no entry in the cache, for either season. In the next run
  such an athlete, if not in \<open>seen_ids\<close>, is put on the list of athletes to scrape,
  and with a non-empty identifier the scrape calls \<open>_fetch\<close> once and sends at least
  one request.
\<close>

theorem no_match_athlete_is_scraped_again:
  assumes "\<forall>r\<in>set (matched_rows fs Winter @ matched_rows fs Summer).
             strip (field r ''athlete_id'') \<noteq> aid"
  shows "build_output_cache (fs(path_join dir ''no-match.csv'' := t)) = build_output_cache fs \<and>
         build_output_cache (fs(path_join dir ''no-match.csv'' := t)) aid = None \<and>
         cache_get (build_output_cache (fs(path_join dir ''no-match.csv'' := t))) aid season = None \<and>
         (strip (field a ''athlete_id'') = aid \<and> aid \<notin> seen \<longrightarrow>
            a \<in> set (snd (foldl (lookup_step seen
                (build_output_cache (fs(path_join dir ''no-match.csv'' := t)))
                out_fields season lookup kf) ([], []) (xs @ a # ys)))) \<and>
         (strip (field a ''athlete_id'') = aid \<and> aid \<notin> seen \<and> aid \<noteq> [] \<longrightarrow>
            fetch_calls (snd (classify_athletes net seen
                (build_output_cache (fs(path_join dir ''no-match.csv'' := t)))
                [a] out_fields season lookup kf st)) = Suc (fetch_calls st) \<and>
            requests st < requests (snd (classify_athletes net seen
                (build_output_cache (fs(path_join dir ''no-match.csv'' := t)))
                [a] out_fields season lookup kf st)))"
proof -
  let ?c = "build_output_cache (fs(path_join dir ''no-match.csv'' := t))"
  have A: "?c = build_output_cache fs" by (rule build_output_cache_no_match)
  have B: "?c aid = None" unfolding A build_entry_None using assms by blast
  have C: "\<And>s. cache_get ?c aid s = None" using B by (simp add: cache_get_def)
  have D: "a \<in> set (snd (foldl (lookup_step seen ?c out_fields season lookup kf) ([], []) (xs @ a # ys)))"
    if "strip (field a ''athlete_id'') = aid" "aid \<notin> seen"
  proof -
    have one: "foldl (lookup_step seen ?c out_fields season lookup kf) ([], []) [a] = ([], [a])"
      using lookup_step_unseen[of a seen ?c season] that C by simp
    show ?thesis
      using foldl_lookup_step_append[of seen ?c out_fields season lookup kf xs "[a] @ ys"]
        foldl_lookup_step_append[of seen ?c out_fields season lookup kf "[a]" ys] one
      by simp
  qed
  have E: "fetch_calls (snd (classify_athletes net seen ?c [a] out_fields season lookup kf st)) =
             Suc (fetch_calls st) \<and>
           requests st < requests (snd (classify_athletes net seen ?c [a] out_fields season lookup kf st))"
    if "strip (field a ''athlete_id'') = aid" "aid \<notin> seen" "aid \<noteq> []"
  proof -
    have one: "foldl (lookup_step seen ?c out_fields season lookup kf) ([], []) [a] = ([], [a])"
      using lookup_step_unseen[of a seen ?c season] that C by simp
    have "snd (classify_athletes net seen ?c [a] out_fields season lookup kf st) =
          snd (games_from_page net aid season st)"
      unfolding classify_athletes_def one using snd_scrape_step_id[of a] that by simp
    then show ?thesis using games_from_page_counts[of net aid season st] by simp
  qed
  have D': "strip (field a ''athlete_id'') = aid \<and> aid \<notin> seen \<longrightarrow>
      a \<in> set (snd (foldl (lookup_step seen ?c out_fields season lookup kf) ([], []) (xs @ a # ys)))"
    using D by blast
  have E': "strip (field a ''athlete_id'') = aid \<and> aid \<notin> seen \<and> aid \<noteq> [] \<longrightarrow>
      fetch_calls (snd (classify_athletes net seen ?c [a] out_fields season lookup kf st)) =
             Suc (fetch_calls st) \<and>
      requests st < requests (snd (classify_athletes net seen ?c [a] out_fields season lookup kf st))"
    using E by blast
  show ?thesis using A B C[of season] D' E' by (intro conjI)
qed

theorem no_match_athlete_is_scraped_again_witness:
  "''5'' \<notin> set (map (\<lambda>r. strip (field r ''athlete_id''))
      (matched_rows example_files Winter @ matched_rows example_files Summer)) \<and>
   cache_get (build_output_cache (example_files(path_join WINTER_DIR ''no-match.csv'' := example_no_match)))
     ''5'' Winter = None \<and>
   fetch_calls (snd (classify_athletes throttled {}
      (build_output_cache (example_files(path_join WINTER_DIR ''no-match.csv'' := example_no_match)))
      [example_failed_athlete] [''athlete_id'', ''Games''] Winter (\<lambda>_. []) None new_fetcher)) = 1"
proof -
  have h: "\<forall>r\<in>set (matched_rows example_files Winter @ matched_rows example_files Summer).
      strip (field r ''athlete_id'') \<noteq> ''5''"
    by (simp add: example_matched_rows field_def strip_def char_classes)
  have a: "strip (field example_failed_athlete ''athlete_id'') = ''5'' \<and> ''5'' \<notin> ({} :: string set) \<and>
      ''5'' \<noteq> []"
    by (simp add: example_failed_athlete_def field_def strip_def char_classes)
  have z: "fetch_calls new_fetcher = 0" by (simp add: new_fetcher_def)
  note t = no_match_athlete_is_scraped_again[where fs = example_files and aid = "''5''"
      and dir = WINTER_DIR and t = example_no_match and season = Winter
      and a = example_failed_athlete and seen = "{}" and net = throttled
      and out_fields = "[''athlete_id'', ''Games'']" and lookup = "\<lambda>_. []" and kf = None
      and st = new_fetcher and xs = "[]" and ys = "[]", OF h]
  from t have c: "cache_get (build_output_cache
      (example_files(path_join WINTER_DIR ''no-match.csv'' := example_no_match))) ''5'' Winter = None"
    by blast
  from t a have "fetch_calls (snd (classify_athletes throttled {}
      (build_output_cache (example_files(path_join WINTER_DIR ''no-match.csv'' := example_no_match)))
      [example_failed_athlete] [''athlete_id'', ''Games''] Winter (\<lambda>_. []) None new_fetcher)) =
      Suc (fetch_calls new_fetcher)"
    by blast
  then have f: "fetch_calls (snd (classify_athletes throttled {}
      (build_output_cache (example_files(path_join WINTER_DIR ''no-match.csv'' := example_no_match)))
      [example_failed_athlete] [''athlete_id'', ''Games''] Winter (\<lambda>_. []) None new_fetcher)) = 1"
    unfolding z by simp
  have m: "''5'' \<notin> set (map (\<lambda>r. strip (field r ''athlete_id''))
      (matched_rows example_files Winter @ matched_rows example_files Summer))"
    by (simp add: example_matched_rows field_def strip_def char_classes)
  from m c f show ?thesis by (intro conjI)
qed

text \<open>
  Claim C6, as the code does not have it. A row of a matched table with an empty
  \<open>Games\<close> value stores the empty list for its athlete: a resolved-empty state.
\<close>

theorem blank_games_row_is_cached_as_empty:
  "cache_get (build_output_cache example_blank_files) ''7'' Winter = Some []"
  by (simp add: example_blank_files_def build_output_cache_def cache_season_def
      cache_file_def cache_row_def cache_add_def cache_get_def split_games_def path_join_def
      WINTER_DIR_def SUMMER_DIR_def field_def strip_def char_classes Let_def)

lemma example_cache_9:
  "cache_get (build_output_cache example_files) ''9'' Winter =
     Some [''1924 Winter Olympics'', ''1928 Winter Olympics'']"
  by (simp add: example_files_def build_output_cache_def cache_season_def
      cache_file_def cache_row_def cache_add_def cache_get_def split_games_def path_join_def
      WINTER_DIR_def SUMMER_DIR_def field_def strip_def char_classes Let_def)

text \<open>
  Claim C6, amended. For an identifier and a season the cache reports nothing exactly
  when the identifier is empty or listed in no matched table of the season; otherwise
  it reports the sorted list of the editions the season's matched tables list for the
  identifier, which is the empty list exactly when every \<open>Games\<close> value listed for it
  holds no edition. When the four matched files do not exist the cache is empty.
\<close>

theorem cache_states:
  "(cache_get (build_output_cache fs) aid s = None \<longleftrightarrow>
      aid = [] \<or> (\<forall>r\<in>set (matched_rows fs s). strip (field r ''athlete_id'') \<noteq> aid)) \<and>
   (cache_get (build_output_cache fs) aid s = Some games \<longrightarrow>
      sorted games \<and> set games = listed_games (matched_rows fs s) aid) \<and>
   (cache_get (build_output_cache fs) aid s = Some [] \<longleftrightarrow>
      aid \<noteq> [] \<and> (\<exists>r\<in>set (matched_rows fs s). strip (field r ''athlete_id'') = aid) \<and>
      listed_games (matched_rows fs s) aid = {}) \<and>
   (fs (path_join WINTER_DIR ''all-states.csv'') = None \<and>
    fs (path_join WINTER_DIR ''us-born-elsewhere.csv'') = None \<and>
    fs (path_join SUMMER_DIR ''all-states.csv'') = None \<and>
    fs (path_join SUMMER_DIR ''us-born-elsewhere.csv'') = None \<longrightarrow>
      build_output_cache fs = (\<lambda>_. None))"
proof -
  have 1: "cache_get (build_output_cache fs) aid s = None \<longleftrightarrow>
      aid = [] \<or> (\<forall>r\<in>set (matched_rows fs s). strip (field r ''athlete_id'') \<noteq> aid)"
    by (rule cache_get_build_None)
  have 2: "sorted g \<and> set g = listed_games (matched_rows fs s) aid"
    if h: "cache_get (build_output_cache fs) aid s = Some g" for g
  proof -
    have srt: "sorted g" using h by (rule sorted_build_output_cache)
    have ne: "aid \<noteq> []" using 1 h by auto
    have "set g = known_games (build_output_cache fs) aid s" using h by (simp add: known_games_def)
    then show ?thesis using srt ne by (simp add: known_games_build)
  qed
  have 3: "cache_get (build_output_cache fs) aid s = Some [] \<longleftrightarrow>
      aid \<noteq> [] \<and> (\<exists>r\<in>set (matched_rows fs s). strip (field r ''athlete_id'') = aid) \<and>
      listed_games (matched_rows fs s) aid = {}"
  proof
    assume h: "cache_get (build_output_cache fs) aid s = Some []"
    from 2[OF h] 1 h show "aid \<noteq> [] \<and> (\<exists>r\<in>set (matched_rows fs s). strip (field r ''athlete_id'') = aid) \<and>
      listed_games (matched_rows fs s) aid = {}" by auto
  next
    assume h: "aid \<noteq> [] \<and> (\<exists>r\<in>set (matched_rows fs s). strip (field r ''athlete_id'') = aid) \<and>
      listed_games (matched_rows fs s) aid = {}"
    with 1 obtain g where g: "cache_get (build_output_cache fs) aid s = Some g" by auto
    from 2[OF g] h have "g = []" by simp
    with g show "cache_get (build_output_cache fs) aid s = Some []" by simp
  qed
  have 4: "build_output_cache fs = (\<lambda>_. None)"
    if "fs (path_join WINTER_DIR ''all-states.csv'') = None \<and>
    fs (path_join WINTER_DIR ''us-born-elsewhere.csv'') = None \<and>
    fs (path_join SUMMER_DIR ''all-states.csv'') = None \<and>
    fs (path_join SUMMER_DIR ''us-born-elsewhere.csv'') = None"
    using that by (simp add: build_output_cache_eq matched_rows_def file_rows_def)
  from 1 2 3 4 show ?thesis by blast
qed

theorem cache_states_witness:
  "cache_get (build_output_cache example_files) ''9'' Winter =
     Some [''1924 Winter Olympics'', ''1928 Winter Olympics''] \<and>
   sorted [''1924 Winter Olympics'', ''1928 Winter Olympics''] \<and>
   set [''1924 Winter Olympics'', ''1928 Winter Olympics''] =
     listed_games (matched_rows example_files Winter) ''9'' \<and>
   build_output_cache (\<lambda>_. None) = (\<lambda>_. None)"
proof -
  note t = cache_states[where fs = example_files and aid = "''9''" and s = Winter
      and games = "[''1924 Winter Olympics'', ''1928 Winter Olympics'']"]
  note u = cache_states[where fs = "\<lambda>_. None"]
  from t example_cache_9 have a: "sorted [''1924 Winter Olympics'', ''1928 Winter Olympics''] \<and>
      set [''1924 Winter Olympics'', ''1928 Winter Olympics''] =
        listed_games (matched_rows example_files Winter) ''9''"
    by blast
  have "(\<lambda>_. None :: table option) (path_join WINTER_DIR ''all-states.csv'') = None \<and>
    (\<lambda>_. None :: table option) (path_join WINTER_DIR ''us-born-elsewhere.csv'') = None \<and>
    (\<lambda>_. None :: table option) (path_join SUMMER_DIR ''all-states.csv'') = None \<and>
    (\<lambda>_. None :: table option) (path_join SUMMER_DIR ''us-born-elsewhere.csv'') = None"
    by simp
  with u have b: "build_output_cache (\<lambda>_. None) = (\<lambda>_. None)" by blast
  from example_cache_9 a b show ?thesis by (intro conjI) blast+
qed

subsection \<open>Searching by name\<close>

lemma try_links_None:
  "try_links page ls st = (None, st') \<longleftrightarrow> fail_state page ls st = Some st'"
proof (induction ls arbitrary: st)
  case Nil
  show ?case by auto
next
  case (Cons l ls)
  show ?case
  proof (cases "rx_match ATHLETE_RE (fst l)")
    case None
    then show ?thesis using Cons.IH by simp
  next
    case (Some gs)
    obtain r st1 where p: "page (group gs 1) st = (r, st1)" by (metis surj_pair)
    show ?thesis using Some p Cons.IH[of st1] by (cases r) simp_all
  qed
qed

lemma try_links_Some_D:
  "try_links page ls st = (Some g, st') \<Longrightarrow>
   \<exists>pre l post gs st0. ls = pre @ l # post \<and> fail_state page pre st = Some st0 \<and>
      rx_match ATHLETE_RE (fst l) = Some gs \<and> page (group gs 1) st0 = (Some g, st')"
proof (induction ls arbitrary: st)
  case Nil
  then show ?case by simp
next
  case (Cons l ls)
  show ?case
  proof (cases "rx_match ATHLETE_RE (fst l)")
    case None
    with Cons.prems have "try_links page ls st = (Some g, st')" by simp
    from Cons.IH[OF this] obtain pre l' post gs st0 where
      h: "ls = pre @ l' # post" "fail_state page pre st = Some st0"
         "rx_match ATHLETE_RE (fst l') = Some gs" "page (group gs 1) st0 = (Some g, st')"
      by blast
    have "l # ls = (l # pre) @ l' # post" using h(1) by simp
    moreover have "fail_state page (l # pre) st = Some st0" using None h(2) by simp
    ultimately show ?thesis using h(3,4) by blast
  next
    case (Some gs)
    obtain r st1 where p: "page (group gs 1) st = (r, st1)" by (metis surj_pair)
    show ?thesis
    proof (cases r)
      case None
      with Some p Cons.prems have "try_links page ls st1 = (Some g, st')" by simp
      from Cons.IH[OF this] obtain pre l' post gs' st0 where
        h: "ls = pre @ l' # post" "fail_state page pre st1 = Some st0"
           "rx_match ATHLETE_RE (fst l') = Some gs'" "page (group gs' 1) st0 = (Some g, st')"
        by blast
      have "l # ls = (l # pre) @ l' # post" using h(1) by simp
      moreover have "fail_state page (l # pre) st = Some st0" using Some p None h(2) by simp
      ultimately show ?thesis using h(3,4) by blast
    next
      case (Some g')
      with \<open>rx_match ATHLETE_RE (fst l) = Some gs\<close> p Cons.prems
      have "g' = g" "st1 = st'" by simp_all
      then have "page (group gs 1) st = (Some g, st')" using p Some by simp
      moreover have "l # ls = [] @ l # ls" by simp
      moreover have "fail_state page [] st = Some st" by simp
      ultimately show ?thesis using \<open>rx_match ATHLETE_RE (fst l) = Some gs\<close> by blast
    qed
  qed
qed

lemma try_links_Some_I:
  "fail_state page pre st = Some st0 \<Longrightarrow> rx_match ATHLETE_RE (fst l) = Some gs \<Longrightarrow>
   page (group gs 1) st0 = (Some g, st') \<Longrightarrow>
   try_links page (pre @ l # post) st = (Some g, st')"
proof (induction pre arbitrary: st)
  case Nil
  then show ?case by simp
next
  case (Cons p pre)
  show ?case
  proof (cases "rx_match ATHLETE_RE (fst p)")
    case None
    then show ?thesis using Cons by simp
  next
    case (Some gs')
    obtain r st1 where q: "page (group gs' 1) st = (r, st1)" by (metis surj_pair)
    show ?thesis
    proof (cases r)
      case None
      then show ?thesis using Some q Cons.prems Cons.IH[of st1] by simp
    next
      case (Some a)
      then show ?thesis using \<open>rx_match ATHLETE_RE (fst p) = Some gs'\<close> q Cons.prems(1) by simp
    qed
  qed
qed

lemma try_links_Some:
  "try_links page ls st = (Some g, st') \<longleftrightarrow>
   (\<exists>pre l post gs st0. ls = pre @ l # post \<and> fail_state page pre st = Some st0 \<and>
      rx_match ATHLETE_RE (fst l) = Some gs \<and> page (group gs 1) st0 = (Some g, st'))"
  using try_links_Some_D[of page ls st g st'] try_links_Some_I[of page _ st _ _ _ g st']
  by blast

lemma example_search_url: "search_url (name_parts ''Ann Example'') =
    ''https://www.olympedia.org/athletes/quick_search?query=Ann+Example''"
  by (simp add: search_url_def name_parts_def split_ws_def char_classes BASE_URL_def quote_plus_def
      quote_char_def)

lemma example_feed_search: "feed example_search_page =
    [(''/athletes/12'', ''Ann Example''), (''/countries/USA'', ''USA''), (''/athletes/34'', ''Ann Example'')]"
  by (simp add: feed_def example_search_page_def new_parser_def attr_href_def strip_def char_classes)

lemma example_feed_profile: "feed example_profile =
    [(''/editions/29'', ''1924 Winter Olympics''), (''/editions/8'', ''1920 Summer Olympics'')]"
  by (simp add: feed_def example_profile_def new_parser_def attr_href_def strip_def char_classes)

lemma example_fetch_search:
  "fetch example_net ''https://www.olympedia.org/athletes/quick_search?query=Ann+Example'' st =
     (Some example_search_page,
      st\<lparr>fetch_calls := Suc (fetch_calls st), requests := Suc (requests st),
         sleeps := sleeps st @ [current_delay st], current_delay := REQUEST_DELAY\<rparr>)"
  by (simp add: fetch_def example_net_def MAX_RETRIES_def numeral_eq_Suc)

lemma example_fetch_34:
  "fetch example_net ''https://www.olympedia.org/athletes/34'' st =
     (Some example_profile,
      st\<lparr>fetch_calls := Suc (fetch_calls st), requests := Suc (requests st),
         sleeps := sleeps st @ [current_delay st], current_delay := REQUEST_DELAY\<rparr>)"
  by (simp add: fetch_def example_net_def MAX_RETRIES_def numeral_eq_Suc)

lemma example_fetch_12:
  "fetch example_net ''https://www.olympedia.org/athletes/12'' st =
     (None,
      st\<lparr>fetch_calls := Suc (fetch_calls st), requests := Suc (requests st),
         sleeps := sleeps st @ [current_delay st]\<rparr>)"
  by (simp add: fetch_def example_net_def MAX_RETRIES_def numeral_eq_Suc)

lemma example_page_12:
  "games_from_page example_net ''12'' season st =
     (None, st\<lparr>fetch_calls := Suc (fetch_calls st), requests := Suc (requests st),
         sleeps := sleeps st @ [current_delay st]\<rparr>)"
  by (simp add: games_from_page_def BASE_URL_def example_fetch_12)

lemma example_page_34:
  "games_from_page example_net ''34'' Winter st =
     (Some [''1924 Winter Olympics''],
      st\<lparr>fetch_calls := Suc (fetch_calls st), requests := Suc (requests st),
         sleeps := sleeps st @ [current_delay st], current_delay := REQUEST_DELAY\<rparr>)"
  by (simp add: games_from_page_def BASE_URL_def example_fetch_34 example_feed_profile page_link_def
      patterns char_classes MIN_YEAR_def int_of_digits_def digit_val_def)

lemma example_athlete_re:
  "rx_match ATHLETE_RE ''/athletes/12'' = Some [''12''] \<and>
   rx_match ATHLETE_RE ''/countries/USA'' = None \<and>
   rx_match ATHLETE_RE ''/athletes/34'' = Some [''34'']"
  by (simp add: patterns char_classes)

text \<open>
  Claim C9. \<open>search_and_find_season\<close> and \<open>search_and_find_winter\<close> are the same
  search, each with its own reader of profile pages. A name without tokens gives
  \<open>None\<close> and no fetch; a failed fetch of the search page gives \<open>None\<close>. Otherwise the
  result is \<open>Some g\<close> exactly when the links of the search page split into links
  whose candidates all failed, a link whose target matches \<open>^/athletes/(\d+)$\<close> and
  whose profile page gives \<open>g\<close> (be it the empty list), and the rest; and it is
  \<open>None\<close> exactly when every candidate failed.
\<close>

theorem name_search_returns_first_success:
  "search_and_find_season net name season = search_links (\<lambda>aid. games_from_page net aid season) net name \<and>
   search_and_find_winter net name = search_links (winter_games_from_page net) net name \<and>
   (name_parts name = [] \<longrightarrow> search_links page net name st = (None, st)) \<and>
   (name_parts name \<noteq> [] \<and> fetch net (search_url (name_parts name)) st = (None, st1) \<longrightarrow>
      search_links page net name st = (None, st1)) \<and>
   (name_parts name \<noteq> [] \<and> fetch net (search_url (name_parts name)) st = (Some h, st1) \<longrightarrow>
      (search_links page net name st = (Some g, st') \<longleftrightarrow>
         (\<exists>pre l post gs st0. feed h = pre @ l # post \<and> fail_state page pre st1 = Some st0 \<and>
            rx_match ATHLETE_RE (fst l) = Some gs \<and> page (group gs 1) st0 = (Some g, st'))) \<and>
      (search_links page net name st = (None, st') \<longleftrightarrow> fail_state page (feed h) st1 = Some st'))"
proof -
  have 1: "search_and_find_season net name season =
      search_links (\<lambda>aid. games_from_page net aid season) net name"
    by (rule ext) (simp add: search_and_find_season_def)
  have 2: "search_and_find_winter net name = search_links (winter_games_from_page net) net name"
    by (rule ext) (simp add: search_and_find_winter_def)
  have 3: "name_parts name = [] \<longrightarrow> search_links page net name st = (None, st)"
    by (simp add: search_links_def)
  have 4: "name_parts name \<noteq> [] \<and> fetch net (search_url (name_parts name)) st = (None, st1) \<longrightarrow>
      search_links page net name st = (None, st1)"
    by (simp add: search_links_def)
  have 5: "search_links page net name st = try_links page (feed h) st1"
    if "name_parts name \<noteq> [] \<and> fetch net (search_url (name_parts name)) st = (Some h, st1)"
    using that by (simp add: search_links_def)
  show ?thesis
    using 1 2 3 4 5 try_links_Some[of page "feed h" st1 g st'] try_links_None[of page "feed h" st1 st']
    by simp
qed

theorem name_search_returns_first_success_witness:
  "name_parts ''Ann Example'' = [''Ann'', ''Example''] \<and>
   search_and_find_season example_net ''Ann Example'' Winter new_fetcher =
     (Some [''1924 Winter Olympics''],
      \<lparr>current_delay = 4, fetch_calls = 3, requests = 3, sleeps = [4, 4, 4]\<rparr>) \<and>
   search_and_find_winter throttled [] new_fetcher = (None, new_fetcher)"
proof -
  let ?page = "\<lambda>aid. games_from_page example_net aid Winter"
  let ?st1 = "\<lparr>current_delay = 4, fetch_calls = 1, requests = 1, sleeps = [4::real]\<rparr>"
  let ?st2 = "\<lparr>current_delay = 4, fetch_calls = 2, requests = 2, sleeps = [4::real, 4]\<rparr>"
  let ?st3 = "\<lparr>current_delay = 4, fetch_calls = 3, requests = 3, sleeps = [4::real, 4, 4]\<rparr>"
  have parts: "name_parts ''Ann Example'' = [''Ann'', ''Example'']"
    by (simp add: name_parts_def split_ws_def char_classes)
  have f: "fetch example_net (search_url (name_parts ''Ann Example'')) new_fetcher =
      (Some example_search_page, ?st1)"
    unfolding example_search_url example_fetch_search
    by (simp add: new_fetcher_def REQUEST_DELAY_def)
  have p12: "?page ''12'' ?st1 = (None, ?st2)"
    unfolding example_page_12 by simp
  have p34: "?page ''34'' ?st2 = (Some [''1924 Winter Olympics''], ?st3)"
    unfolding example_page_34 by (simp add: REQUEST_DELAY_def)
  have fs: "fail_state ?page [(''/athletes/12'', ''Ann Example''), (''/countries/USA'', ''USA'')] ?st1 =
      Some ?st2"
    using example_athlete_re p12 by (simp add: group_def)
  have ex: "\<exists>pre l post gs st0. feed example_search_page = pre @ l # post \<and>
      fail_state ?page pre ?st1 = Some st0 \<and> rx_match ATHLETE_RE (fst l) = Some gs \<and>
      ?page (group gs 1) st0 = (Some [''1924 Winter Olympics''], ?st3)"
    apply (rule exI[of _ "[(''/athletes/12'', ''Ann Example''), (''/countries/USA'', ''USA'')]"])
    apply (rule exI[of _ "(''/athletes/34'', ''Ann Example'')"])
    apply (rule exI[of _ "[]"])
    apply (rule exI[of _ "[''34'']"])
    apply (rule exI[of _ ?st2])
    using fs p34 example_athlete_re example_feed_search
    apply (simp add: group_def)
    done
  note t = name_search_returns_first_success[where net = example_net and name = "''Ann Example''"
      and season = Winter and page = ?page and st = new_fetcher and ?st1.0 = ?st1
      and h = example_search_page and g = "[''1924 Winter Olympics'']" and st' = ?st3]
  have ne: "name_parts ''Ann Example'' \<noteq> []" using parts by simp
  from t ne f ex have a: "search_links ?page example_net ''Ann Example'' new_fetcher =
      (Some [''1924 Winter Olympics''], ?st3)"
    by blast
  from t have "search_and_find_season example_net ''Ann Example'' Winter =
      search_links ?page example_net ''Ann Example''"
    by blast
  with a have b: "search_and_find_season example_net ''Ann Example'' Winter new_fetcher =
      (Some [''1924 Winter Olympics''], ?st3)"
    by simp
  note u = name_search_returns_first_success[where net = throttled and name = "[]"
      and page = "winter_games_from_page throttled" and st = new_fetcher]
  have e: "name_parts [] = []" by (simp add: name_parts_def split_ws_def)
  from u e have c: "search_and_find_winter throttled [] new_fetcher = (None, new_fetcher)"
    by simp
  from parts b c show ?thesis by (intro conjI)
qed

subsection \<open>A second run\<close>

lemma example_page_34_summer:
  "games_from_page example_net ''34'' Summer st =
     (Some [],
      st\<lparr>fetch_calls := Suc (fetch_calls st), requests := Suc (requests st),
         sleeps := sleeps st @ [current_delay st], current_delay := REQUEST_DELAY\<rparr>)"
  by (simp add: games_from_page_def BASE_URL_def example_fetch_34 example_feed_profile page_link_def
      patterns char_classes MIN_YEAR_def int_of_digits_def digit_val_def)

lemma example_name_parts: "name_parts ''Ann Example'' = [''Ann'', ''Example'']"
  by (simp add: name_parts_def split_ws_def char_classes)

lemma example_search_url2: "search_url [''Ann'', ''Example''] =
    ''https://www.olympedia.org/athletes/quick_search?query=Ann+Example''"
  using example_search_url unfolding example_name_parts .

lemma example_search_winter:
  "search_and_find_season example_net ''Ann Example'' Winter st =
     (Some [''1924 Winter Olympics''],
      st\<lparr>fetch_calls := fetch_calls st + 3, requests := requests st + 3,
         sleeps := sleeps st @ [current_delay st, REQUEST_DELAY, REQUEST_DELAY],
         current_delay := REQUEST_DELAY\<rparr>)"
  by (simp add: search_and_find_season_def search_links_def example_fetch_search
      example_name_parts example_search_url2
      example_feed_search example_athlete_re group_def example_page_12 example_page_34 Let_def)

lemma example_search_summer:
  "search_and_find_season example_net ''Ann Example'' Summer st =
     (Some [],
      st\<lparr>fetch_calls := fetch_calls st + 3, requests := requests st + 3,
         sleeps := sleeps st @ [current_delay st, REQUEST_DELAY, REQUEST_DELAY],
         current_delay := REQUEST_DELAY\<rparr>)"
  by (simp add: search_and_find_season_def search_links_def example_fetch_search
      example_name_parts example_search_url2
      example_feed_search example_athlete_re group_def example_page_12 example_page_34_summer Let_def)

lemma ann_fields: "strip (field ann ''athlete_id'') = [] \<and> field ann ''Used name'' = ''Ann Example''"
  by (simp add: ann_def field_def strip_def)

lemma example_out_fields:
  "make_out_fields [''athlete_id'', ''Used name'', ''Born'', ''Roles''] =
     [''athlete_id'', ''Used name'', ''Born'', ''Games'']"
  by (simp add: make_out_fields_def)

lemma classify_ann_winter:
  "cache_get c [] Winter = None \<Longrightarrow> [] \<notin> seen \<Longrightarrow>
   classify_athletes example_net seen c [ann] [''athlete_id'', ''Used name'', ''Born'', ''Games'']
     Winter lookup None st =
   (([([], ann_out)], []),
      st\<lparr>fetch_calls := fetch_calls st + 3, requests := requests st + 3,
         sleeps := sleeps st @ [current_delay st, REQUEST_DELAY, REQUEST_DELAY],
         current_delay := REQUEST_DELAY\<rparr>)"
  using ann_fields
  by (simp add: classify_athletes_def lookup_step_def scrape_step_def example_search_winter Let_def
      row_key_def build_out_row_def ann_out_def)
     (simp add: ann_def field_def)

lemma classify_ann_summer:
  "cache_get c [] Summer = None \<Longrightarrow> [] \<notin> seen \<Longrightarrow>
   classify_athletes example_net seen c [ann] [''athlete_id'', ''Used name'', ''Born'', ''Games'']
     Summer lookup None st =
   (([], []),
      st\<lparr>fetch_calls := fetch_calls st + 3, requests := requests st + 3,
         sleeps := sleeps st @ [current_delay st, REQUEST_DELAY, REQUEST_DELAY],
         current_delay := REQUEST_DELAY\<rparr>)"
  using ann_fields
  by (simp add: classify_athletes_def lookup_step_def scrape_step_def example_search_summer Let_def)


lemma example_seen: "[] \<notin> seen_ids (build_index example_results None)"
  by (simp add: example_results_def build_index_def add_result_def new_index_def field_def strip_def
      char_classes Let_def)

lemma classify_nobody:
  "classify_athletes net seen c [] out_fields season lookup kf st = (([], []), st)"
  by (simp add: classify_athletes_def)

lemma cache_get_no_id: "cache_get (build_output_cache fs) [] season = None"
  by (simp add: cache_get_build_None)

lemma example_run_winter:
  "run_season example_net example_inputs (seen_ids (build_index example_results None))
       (build_output_cache fs0) Winter WINTER_DIR lookup (fs, st) =
     (write_season_output [''Montana''] WINTER_DIR [] [([], ann_out)] []
        [''athlete_id'', ''Used name'', ''Born'', ''Games'']
        [''athlete_id'', ''Used name'', ''Born'', ''Roles''] fs,
      st\<lparr>fetch_calls := fetch_calls st + 3, requests := requests st + 3,
         sleeps := sleeps st @ [current_delay st, REQUEST_DELAY, REQUEST_DELAY],
         current_delay := REQUEST_DELAY\<rparr>)"
  using classify_ann_winter[OF cache_get_no_id example_seen]
  by (simp add: run_season_def example_inputs_def example_out_fields classify_nobody)

lemma example_run_summer:
  "run_season example_net example_inputs (seen_ids (build_index example_results None))
       (build_output_cache fs0) Summer SUMMER_DIR lookup (fs, st) =
     (write_season_output [''Montana''] SUMMER_DIR [] [] []
        [''athlete_id'', ''Used name'', ''Born'', ''Games'']
        [''athlete_id'', ''Used name'', ''Born'', ''Roles''] fs,
      st\<lparr>fetch_calls := fetch_calls st + 3, requests := requests st + 3,
         sleeps := sleeps st @ [current_delay st, REQUEST_DELAY, REQUEST_DELAY],
         current_delay := REQUEST_DELAY\<rparr>)"
  using classify_ann_summer[OF cache_get_no_id example_seen]
  by (simp add: run_season_def example_inputs_def example_out_fields classify_nobody)

lemma example_main:
  "main example_net example_inputs (fs, st) =
     (write_season_output [''Montana''] SUMMER_DIR [] [] []
        [''athlete_id'', ''Used name'', ''Born'', ''Games'']
        [''athlete_id'', ''Used name'', ''Born'', ''Roles'']
        (write_season_output [''Montana''] WINTER_DIR [] [([], ann_out)] []
           [''athlete_id'', ''Used name'', ''Born'', ''Games'']
           [''athlete_id'', ''Used name'', ''Born'', ''Roles''] fs),
      st\<lparr>fetch_calls := fetch_calls st + 6, requests := requests st + 6,
         sleeps := sleeps st @ [current_delay st, REQUEST_DELAY, REQUEST_DELAY,
           REQUEST_DELAY, REQUEST_DELAY, REQUEST_DELAY],
         current_delay := REQUEST_DELAY\<rparr>)"
proof -
  have i: "in_results example_inputs = example_results" "in_new_results example_inputs = None"
    by (simp_all add: example_inputs_def)
  show ?thesis
    unfolding main_def Let_def i fst_conv example_run_winter example_run_summer
    by simp
qed

lemma example_written:
  "write_season_output [''Montana''] SUMMER_DIR [] [] []
        [''athlete_id'', ''Used name'', ''Born'', ''Games'']
        [''athlete_id'', ''Used name'', ''Born'', ''Roles'']
        (write_season_output [''Montana''] WINTER_DIR [] [([], ann_out)] []
           [''athlete_id'', ''Used name'', ''Born'', ''Games'']
           [''athlete_id'', ''Used name'', ''Born'', ''Roles''] fs)
     (path_join WINTER_DIR ''us-born-elsewhere.csv'') =
   Some ([''athlete_id'', ''Used name'', ''Born'', ''Games''], [ann_out])"
  by (simp add: write_season_output_def write_csv_def write_state_def group_by_state_def
      make_out_fields_def path_join_def WINTER_DIR_def SUMMER_DIR_def Let_def ann_out_def field_def)

text \<open>
  Claim C7, as the code does not have it. The only athlete has no identifier and is
  found by name: the first run, without earlier output, lists her in the Winter table
  of athletes born elsewhere after six calls of \<open>_fetch\<close>. The second run, whose cache
  is read from the files the first run wrote, searches her again: six more calls.
\<close>

theorem unidentified_athlete_is_searched_again:
  "fst (main example_net example_inputs (no_files, new_fetcher))
     (path_join WINTER_DIR ''us-born-elsewhere.csv'') =
     Some ([''athlete_id'', ''Used name'', ''Born'', ''Games''],
       [[(''athlete_id'', []), (''Used name'', ''Ann Example''), (''Born'', ''in Paris (FRA)''),
         (''Games'', ''1924 Winter Olympics'')]]) \<and>
   fetch_calls (snd (main example_net example_inputs (no_files, new_fetcher))) = 6 \<and>
   fetch_calls (snd (main example_net example_inputs
     (main example_net example_inputs (no_files, new_fetcher)))) = 12"
proof -
  obtain fs1 st1 where r1: "main example_net example_inputs (no_files, new_fetcher) = (fs1, st1)"
    by (metis surj_pair)
  have a: "fs1 (path_join WINTER_DIR ''us-born-elsewhere.csv'') =
      Some ([''athlete_id'', ''Used name'', ''Born'', ''Games''], [ann_out])"
    using r1 unfolding example_main using example_written by auto
  have b: "fetch_calls st1 = 6"
    using r1 unfolding example_main by (auto simp: new_fetcher_def)
  have c: "fetch_calls (snd (main example_net example_inputs (fs1, st1))) = 12"
    unfolding example_main using b by simp
  show ?thesis unfolding r1 using a b c by (simp add: ann_out_def)
qed

lemma strip_id: "s \<noteq> [] \<Longrightarrow> \<not> is_space (hd s) \<Longrightarrow> \<not> is_space (last s) \<Longrightarrow> strip s = s"
proof -
  assume a: "s \<noteq> []" "\<not> is_space (hd s)" "\<not> is_space (last s)"
  have 1: "dropWhile is_space s = s" using a by (cases s) simp_all
  have b: "rev s = last s # rev (butlast s)"
    using a(1) by (metis append_butlast_last_id rev_eq_Cons_iff rev_rev_ident)
  have 2: "dropWhile is_space (rev s) = rev s" unfolding b using a(3) by simp
  show ?thesis unfolding strip_def 1 2 by simp
qed

lemma strip_token: "edition_token g \<Longrightarrow> strip g = g"
  by (simp add: edition_token_def strip_id)

lemma strip_space_token: "edition_token g \<Longrightarrow> strip (CHR '' '' # g) = g"
proof -
  assume t: "edition_token g"
  have sp: "is_space CHR '' ''" by (simp add: is_space_def)
  have "strip (CHR '' '' # g) = strip g"
    using t sp by (simp add: strip_def edition_token_def)
  then show ?thesis using strip_token[OF t] by simp
qed

lemma split_on_no_sep: "d \<notin> set x \<Longrightarrow> split_on d x = [x]"
  by (induction x) auto

lemma split_on_append: "d \<notin> set x \<Longrightarrow> split_on d (x @ d # rest) = x # split_on d rest"
  by (induction x) auto

lemma split_on_join:
  "list_all edition_token (g # gs) \<Longrightarrow>
   split_on CHR '';'' (join ''; '' (g # gs)) = g # map ((#) CHR '' '') gs"
proof (induction gs arbitrary: g)
  case Nil
  then show ?case by (simp add: split_on_no_sep edition_token_def)
next
  case (Cons g' gs)
  have ns: "CHR '';'' \<notin> set g" using Cons.prems by (simp add: edition_token_def)
  have j: "join ''; '' (g # g' # gs) = g @ CHR '';'' # (CHR '' '' # join ''; '' (g' # gs))"
    by simp
  have ih: "split_on CHR '';'' (join ''; '' (g' # gs)) = g' # map ((#) CHR '' '') gs"
    using Cons.IH[of g'] Cons.prems by simp
  have "split_on CHR '';'' (CHR '' '' # join ''; '' (g' # gs)) =
        (CHR '' '' # g') # map ((#) CHR '' '') gs"
    using ih by simp
  then show ?case unfolding j split_on_append[OF ns] by simp
qed

lemma join_nonempty: "list_all edition_token (g # gs) \<Longrightarrow>
   join ''; '' (g # gs) \<noteq> [] \<and> hd (join ''; '' (g # gs)) = hd g \<and>
   last (join ''; '' (g # gs)) = last (last (g # gs))"
proof (induction gs arbitrary: g)
  case Nil
  then show ?case by (simp add: edition_token_def)
next
  case (Cons g' gs)
  have g: "g \<noteq> []" using Cons.prems by (simp add: edition_token_def)
  have ih: "join ''; '' (g' # gs) \<noteq> [] \<and> last (join ''; '' (g' # gs)) = last (last (g' # gs))"
    using Cons.IH[of g'] Cons.prems by simp
  show ?case using g ih by simp
qed

lemma strip_join: "list_all edition_token gs \<Longrightarrow> strip (join ''; '' gs) = join ''; '' gs"
proof (cases gs)
  case Nil
  then show ?thesis by (simp add: strip_def)
next
  case (Cons g gs')
  assume t: "list_all edition_token gs"
  have l: "edition_token (last (g # gs'))"
    using t Cons by (metis last_in_set list.distinct(1) list_all_iff)
  show ?thesis
    unfolding Cons
    using join_nonempty[of g gs'] t Cons l
    by (intro strip_id) (simp_all add: edition_token_def)
qed

lemma map_strip_spaced:
  "list_all edition_token gs \<Longrightarrow> map (\<lambda>g. strip (CHR '' '' # g)) gs = gs"
  by (induction gs) (simp_all add: strip_space_token)

lemma split_games_join: "list_all edition_token gs \<Longrightarrow> split_games (strip (join ''; '' gs)) = gs"
proof (cases gs)
  case Nil
  then show ?thesis by (simp add: split_games_def strip_def)
next
  case (Cons g gs')
  assume t: "list_all edition_token gs"
  have ne: "filter (\<lambda>g. g \<noteq> []) gs = gs"
    using t by (induction gs) (simp_all add: edition_token_def)
  have "map strip (split_on CHR '';'' (join ''; '' gs)) = gs"
    using t unfolding Cons split_on_join[OF t[unfolded Cons]]
    by (simp add: strip_token map_strip_spaced comp_def)
  then show ?thesis
    unfolding split_games_def strip_join[OF t] using ne by simp
qed

lemma cache_get_foldl_untouched:
  "\<forall>r\<in>set rows. strip (field r ''athlete_id'') \<noteq> aid \<Longrightarrow>
   cache_get (foldl (cache_row s) c rows) aid s' = cache_get c aid s'"
  by (induction rows arbitrary: c) (auto simp: cache_get_cache_row)

lemma cache_get_foldl_once:
  "aid \<noteq> [] \<Longrightarrow> cache_get c aid s = None \<Longrightarrow>
   filter (\<lambda>r. strip (field r ''athlete_id'') = aid) rows = [r1] \<Longrightarrow>
   cache_get (foldl (cache_row s) c rows) aid s = Some (sort (split_games (strip (field r1 ''Games''))))"
proof (induction rows arbitrary: c)
  case Nil
  then show ?case by simp
next
  case (Cons r rows)
  show ?case
  proof (cases "strip (field r ''athlete_id'') = aid")
    case True
    with Cons.prems(3) have r: "r = r1" and rest: "filter (\<lambda>r. strip (field r ''athlete_id'') = aid) rows = []"
      by simp_all
    have un: "\<forall>r\<in>set rows. strip (field r ''athlete_id'') \<noteq> aid"
      using rest by (simp add: filter_empty_conv)
    have "cache_get (cache_row s c r) aid s = Some (sort (split_games (strip (field r1 ''Games''))))"
      using True Cons.prems(1,2) r by (simp add: cache_get_cache_row)
    then show ?thesis
      unfolding foldl_Cons cache_get_foldl_untouched[OF un] .
  next
    case False
    have n: "cache_get (cache_row s c r) aid s = None"
      using False Cons.prems(2) by (simp add: cache_get_cache_row)
    have f: "filter (\<lambda>r. strip (field r ''athlete_id'') = aid) rows = [r1]"
      using False Cons.prems(3) by simp
    show ?thesis unfolding foldl_Cons using Cons.IH[OF Cons.prems(1) n f] .
  qed
qed

lemma cache_get_build_once:
  assumes "aid \<noteq> []"
    and "filter (\<lambda>r. strip (field r ''athlete_id'') = aid) (matched_rows fs s) = [r1]"
  shows "cache_get (build_output_cache fs) aid s = Some (sort (split_games (strip (field r1 ''Games''))))"
proof (cases s)
  case Winter
  show ?thesis
    unfolding build_output_cache_eq Winter
    using cache_get_foldl_once[OF assms(1) cache_get_empty assms(2)[unfolded Winter]]
    by (simp add: cache_get_foldl_other)
next
  case Summer
  have n: "cache_get (foldl (cache_row Winter) (\<lambda>_. None) (matched_rows fs Winter)) aid Summer = None"
    by (simp add: cache_get_foldl_other)
  show ?thesis
    unfolding build_output_cache_eq Summer
    using cache_get_foldl_once[OF assms(1) n assms(2)[unfolded Summer]] .
qed

lemma classify_frame:
  assumes "snd (lookup_step seen c out_fields season lookup kf ([], []) a) = []"
  shows "snd (classify_athletes net seen c (xs @ a # ys) out_fields season lookup kf st) =
           snd (classify_athletes net seen c (xs @ ys) out_fields season lookup kf st) \<and>
         snd (fst (classify_athletes net seen c (xs @ a # ys) out_fields season lookup kf st)) =
           snd (fst (classify_athletes net seen c (xs @ ys) out_fields season lookup kf st)) \<and>
         classify_athletes net seen c [a] out_fields season lookup kf st =
           ((fst (lookup_step seen c out_fields season lookup kf ([], []) a), []), st)"
proof -
  let ?F = "\<lambda>rows. foldl (lookup_step seen c out_fields season lookup kf) ([], []) rows"
  have one: "snd (?F [a]) = []" using assms by simp
  have app: "snd (?F (xs @ a # ys)) = snd (?F xs) @ snd (?F ys)"
    using foldl_lookup_step_append[of seen c out_fields season lookup kf xs "[a] @ ys"]
      foldl_lookup_step_append[of seen c out_fields season lookup kf "[a]" ys] one
    by simp
  have app2: "snd (?F (xs @ ys)) = snd (?F xs) @ snd (?F ys)"
    using foldl_lookup_step_append[of seen c out_fields season lookup kf xs ys] by simp
  have 1: "snd (classify_athletes net seen c (xs @ a # ys) out_fields season lookup kf st) =
           snd (classify_athletes net seen c (xs @ ys) out_fields season lookup kf st)"
    unfolding classify_athletes_eq Let_def snd_conv app app2 ..
  have 2: "snd (fst (classify_athletes net seen c (xs @ a # ys) out_fields season lookup kf st)) =
           snd (fst (classify_athletes net seen c (xs @ ys) out_fields season lookup kf st))"
    unfolding classify_athletes_eq Let_def snd_conv fst_conv app app2 ..
  have 3: "classify_athletes net seen c [a] out_fields season lookup kf st =
           ((fst (lookup_step seen c out_fields season lookup kf ([], []) a), []), st)"
    unfolding classify_athletes_eq Let_def using one by simp
  from 1 2 3 show ?thesis by (intro conjI)
qed

lemma lookup_step_known:
  "strip (field a ''athlete_id'') \<in> seen \<Longrightarrow>
   lookup_step seen c out_fields season lookup kf ([], []) a =
     (if lookup (strip (field a ''athlete_id'')) = [] then []
      else [(row_key kf a,
             build_out_row a (join ''; '' (lookup (strip (field a ''athlete_id'')))) out_fields)], [])"
  by (simp add: lookup_step_def Let_def)

text \<open>
  Claim C7, amended. Let the cache be read from any earlier output, such as the files
  a first run wrote, and let an athlete have a non-empty identifier that a matched
  table of the season lists. Then the athlete costs the second run no fetch: with or
  without the athlete in the list the fetcher ends in the same state, and classified
  alone the fetcher is returned unchanged. If the identifier is in \<open>seen_ids\<close>, the
  result is the one any other cache gives, so the one of the first run. If it is not,
  and the season's matched tables list it in one row whose \<open>Games\<close> value is a sorted
  list of editions joined by \<open>"; "\<close>, the second run's row carries that same value.
\<close>

theorem second_run_reuses_matched_athlete:
  assumes "strip (field a ''athlete_id'') \<noteq> []"
    and "strip (field a ''athlete_id'') \<in>
           set (map (\<lambda>r. strip (field r ''athlete_id'')) (matched_rows fs season))"
  shows "snd (classify_athletes net seen (build_output_cache fs) (xs @ a # ys) out_fields season
                lookup kf st) =
         snd (classify_athletes net seen (build_output_cache fs) (xs @ ys) out_fields season
                lookup kf st) \<and>
         snd (classify_athletes net seen (build_output_cache fs) [a] out_fields season lookup kf st) = st \<and>
         (strip (field a ''athlete_id'') \<in> seen \<longrightarrow>
            classify_athletes net seen (build_output_cache fs) [a] out_fields season lookup kf st =
            classify_athletes net seen c0 [a] out_fields season lookup kf st) \<and>
         (strip (field a ''athlete_id'') \<notin> seen \<and>
          filter (\<lambda>r. strip (field r ''athlete_id'') = strip (field a ''athlete_id''))
            (matched_rows fs season) = [r1] \<and>
          field r1 ''Games'' = join ''; '' gs \<and> gs \<noteq> [] \<and> sorted gs \<and> list_all edition_token gs \<longrightarrow>
            classify_athletes net seen (build_output_cache fs) [a] out_fields season lookup kf st =
              (([(row_key kf a, build_out_row a (field r1 ''Games'') out_fields)], []), st))"
proof -
  let ?aid = "strip (field a ''athlete_id'')"
  let ?c = "build_output_cache fs"
  have cached: "cache_get ?c ?aid season \<noteq> None"
    using assms by (auto simp: cache_get_build_None)
  have nos: "snd (lookup_step seen c out_fields season lookup kf ([], []) a) = []"
    if "?aid \<in> seen \<or> cache_get c ?aid season \<noteq> None" for c
    using that by (auto simp: lookup_step_def Let_def)
  note fr = classify_frame[OF nos[of ?c], of net xs ys st]
  have 1: "snd (classify_athletes net seen ?c (xs @ a # ys) out_fields season lookup kf st) =
         snd (classify_athletes net seen ?c (xs @ ys) out_fields season lookup kf st)"
    using fr cached by blast
  have 2: "snd (classify_athletes net seen ?c [a] out_fields season lookup kf st) = st"
    using fr cached by simp
  have 3: "classify_athletes net seen ?c [a] out_fields season lookup kf st =
            classify_athletes net seen c0 [a] out_fields season lookup kf st"
    if k: "?aid \<in> seen"
  proof -
    have "classify_athletes net seen c [a] out_fields season lookup kf st =
        ((fst (lookup_step seen c out_fields season lookup kf ([], []) a), []), st)" for c
      using classify_frame[OF nos[of c], of net xs ys st] k by blast
    then show ?thesis using k by (simp add: lookup_step_known)
  qed
  have 4: "classify_athletes net seen ?c [a] out_fields season lookup kf st =
              (([(row_key kf a, build_out_row a (field r1 ''Games'') out_fields)], []), st)"
    if h: "?aid \<notin> seen \<and>
          filter (\<lambda>r. strip (field r ''athlete_id'') = ?aid) (matched_rows fs season) = [r1] \<and>
          field r1 ''Games'' = join ''; '' gs \<and> gs \<noteq> [] \<and> sorted gs \<and> list_all edition_token gs"
  proof -
    have g: "split_games (strip (field r1 ''Games'')) = gs"
      using h split_games_join[of gs] by simp
    have s: "sort gs = gs" using h by (simp add: sorted_sort_id)
    have "cache_get ?c ?aid season = Some gs"
      using cache_get_build_once[OF assms(1), of fs season r1] h g s by simp
    from lookup_step_cached[OF _ this, of seen out_fields lookup kf] h s
    have "lookup_step seen ?c out_fields season lookup kf ([], []) a =
        ([(row_key kf a, build_out_row a (field r1 ''Games'') out_fields)], [])"
      by simp
    then show ?thesis using fr cached by simp
  qed
  from 1 2 3 4 show ?thesis by blast
qed

lemma bea_id: "strip (field bea ''athlete_id'') = ''34''"
  by (simp add: bea_def field_def strip_def char_classes)

lemma bea_unseen: "''34'' \<notin> seen_ids (build_index example_results None)"
  by (simp add: example_results_def build_index_def add_result_def new_index_def field_def strip_def
      char_classes Let_def)

lemma bea_out_row:
  "build_out_row bea ''1924 Winter Olympics'' [''athlete_id'', ''Used name'', ''Born'', ''Games''] = bea_out"
  by (simp add: build_out_row_def bea_def bea_out_def field_def)

lemma classify_bea_winter:
  "cache_get c ''34'' Winter = None \<Longrightarrow> ''34'' \<notin> seen \<Longrightarrow>
   classify_athletes example_net seen c [bea] [''athlete_id'', ''Used name'', ''Born'', ''Games'']
     Winter lookup None st =
   (([([], bea_out)], []),
      st\<lparr>fetch_calls := Suc (fetch_calls st), requests := Suc (requests st),
         sleeps := sleeps st @ [current_delay st], current_delay := REQUEST_DELAY\<rparr>)"
  using bea_id bea_out_row
  by (simp add: classify_athletes_def lookup_step_def scrape_step_def example_page_34 Let_def
      row_key_def)

lemma classify_bea_summer:
  "cache_get c ''34'' Summer = None \<Longrightarrow> ''34'' \<notin> seen \<Longrightarrow>
   classify_athletes example_net seen c [bea] [''athlete_id'', ''Used name'', ''Born'', ''Games'']
     Summer lookup None st =
   (([], []),
      st\<lparr>fetch_calls := Suc (fetch_calls st), requests := Suc (requests st),
         sleeps := sleeps st @ [current_delay st], current_delay := REQUEST_DELAY\<rparr>)"
  using bea_id
  by (simp add: classify_athletes_def lookup_step_def scrape_step_def example_page_34_summer Let_def)

lemma cache_no_files: "cache_get (build_output_cache no_files) aid s = None"
  by (simp add: cache_get_build_None matched_rows_def file_rows_def no_files_def)

lemma example_first_run:
  "main example_net example_inputs2 (no_files, st) =
     (write_season_output [''Montana''] SUMMER_DIR [] [] []
        [''athlete_id'', ''Used name'', ''Born'', ''Games'']
        [''athlete_id'', ''Used name'', ''Born'', ''Roles'']
        (write_season_output [''Montana''] WINTER_DIR [] [([], bea_out)] []
           [''athlete_id'', ''Used name'', ''Born'', ''Games'']
           [''athlete_id'', ''Used name'', ''Born'', ''Roles''] no_files),
      st\<lparr>fetch_calls := Suc (Suc (fetch_calls st)), requests := Suc (Suc (requests st)),
         sleeps := sleeps st @ [current_delay st, REQUEST_DELAY],
         current_delay := REQUEST_DELAY\<rparr>)"
proof -
  have i: "in_results example_inputs2 = example_results" "in_new_results example_inputs2 = None"
    by (simp_all add: example_inputs2_def)
  show ?thesis
    unfolding main_def Let_def i fst_conv
    using classify_bea_winter[OF cache_no_files bea_unseen]
      classify_bea_summer[OF cache_no_files bea_unseen]
    by (simp add: run_season_def example_inputs2_def example_out_fields classify_nobody)
qed

lemma example_first_run_matched:
  "matched_rows (fst (main example_net example_inputs2 (no_files, st))) Winter = [bea_out]"
  unfolding example_first_run fst_conv
  by (simp add: matched_rows_def file_rows_def write_season_output_def write_csv_def write_state_def
      group_by_state_def make_out_fields_def path_join_def WINTER_DIR_def SUMMER_DIR_def Let_def
      bea_out_def field_def no_files_def)

theorem second_run_reuses_matched_athlete_witness:
  "matched_rows (fst (main example_net example_inputs2 (no_files, new_fetcher))) Winter = [bea_out] \<and>
   classify_athletes example_net (seen_ids (build_index example_results None))
       (build_output_cache (fst (main example_net example_inputs2 (no_files, new_fetcher))))
       [bea] [''athlete_id'', ''Used name'', ''Born'', ''Games''] Winter
       (winter_lookup (build_index example_results None)) None
       (snd (main example_net example_inputs2 (no_files, new_fetcher))) =
     (([([], bea_out)], []), snd (main example_net example_inputs2 (no_files, new_fetcher)))"
proof -
  let ?fs = "fst (main example_net example_inputs2 (no_files, new_fetcher))"
  let ?st = "snd (main example_net example_inputs2 (no_files, new_fetcher))"
  have m: "matched_rows ?fs Winter = [bea_out]" by (rule example_first_run_matched)
  have out_id: "strip (field bea_out ''athlete_id'') = ''34''"
    by (simp add: bea_out_def field_def strip_def char_classes)
  have h1: "strip (field bea ''athlete_id'') \<noteq> []" using bea_id by simp
  have h2: "strip (field bea ''athlete_id'') \<in>
      set (map (\<lambda>r. strip (field r ''athlete_id'')) (matched_rows ?fs Winter))"
    unfolding m using bea_id out_id by simp
  have tok: "list_all edition_token [''1924 Winter Olympics'']"
    by (simp add: edition_token_def char_classes)
  have h3: "strip (field bea ''athlete_id'') \<notin> seen_ids (build_index example_results None) \<and>
      filter (\<lambda>r. strip (field r ''athlete_id'') = strip (field bea ''athlete_id''))
        (matched_rows ?fs Winter) = [bea_out] \<and>
      field bea_out ''Games'' = join ''; '' [''1924 Winter Olympics''] \<and>
      [''1924 Winter Olympics''] \<noteq> [] \<and> sorted [''1924 Winter Olympics''] \<and>
      list_all edition_token [''1924 Winter Olympics'']"
    unfolding m using bea_id out_id bea_unseen tok by (simp add: bea_out_def field_def)
  note t = second_run_reuses_matched_athlete[OF h1 h2, where net = example_net
      and seen = "seen_ids (build_index example_results None)"
      and out_fields = "[''athlete_id'', ''Used name'', ''Born'', ''Games'']"
      and lookup = "winter_lookup (build_index example_results None)" and kf = None
      and st = ?st and ?r1.0 = bea_out and gs = "[''1924 Winter Olympics'']"]
  have g: "field bea_out ''Games'' = ''1924 Winter Olympics''"
    by (simp add: bea_out_def field_def)
  from t h3 have "classify_athletes example_net (seen_ids (build_index example_results None))
       (build_output_cache ?fs) [bea] [''athlete_id'', ''Used name'', ''Born'', ''Games''] Winter
       (winter_lookup (build_index example_results None)) None ?st =
     (([(row_key None bea, build_out_row bea (field bea_out ''Games'')
          [''athlete_id'', ''Used name'', ''Born'', ''Games''])], []), ?st)"
    by blast
  then have c: "classify_athletes example_net (seen_ids (build_index example_results None))
       (build_output_cache ?fs) [bea] [''athlete_id'', ''Used name'', ''Born'', ''Games''] Winter
       (winter_lookup (build_index example_results None)) None ?st =
     (([([], bea_out)], []), ?st)"
    unfolding g bea_out_row by (simp add: row_key_def)
  from m c show ?thesis by (intro conjI)
qed

subsection \<open>Birth state\<close>

text \<open>What a successful run of the matcher says about the string, atom by atom.\<close>

lemma run_One_D:
  "rx_run (Atom p One # r) cur gs s = Some g \<Longrightarrow>
   \<exists>c v. s = c # v \<and> p c \<and> rx_run r (push c cur) gs v = Some g"
  by (cases s) (auto split: if_splits)

lemma run_Star_D:
  "rx_run (Atom p Star # r) cur gs s = Some g \<Longrightarrow>
   \<exists>u v cur'. s = u @ v \<and> list_all p u \<and> rx_run r cur' gs v = Some g"
proof (induction s arbitrary: cur)
  case Nil
  then have "rx_run r cur gs [] = Some g" by simp
  then show ?case by (intro exI[of _ "[]"]) auto
next
  case (Cons c cs)
  show ?case
  proof (cases "p c \<and> rx_run (Atom p Star # r) (push c cur) gs cs \<noteq> None")
    case True
    then have "rx_run (Atom p Star # r) (push c cur) gs cs = Some g"
      using Cons.prems by auto
    from Cons.IH[OF this] obtain u v cur' where
      h: "cs = u @ v" "list_all p u" "rx_run r cur' gs v = Some g" by blast
    have "c # cs = (c # u) @ v \<and> list_all p (c # u)" using h True by simp
    then show ?thesis using h(3) by blast
  next
    case False
    then have "rx_run r cur gs (c # cs) = Some g"
      using Cons.prems by (auto split: if_splits option.splits)
    then have "c # cs = [] @ (c # cs) \<and> list_all p [] \<and> rx_run r cur gs (c # cs) = Some g"
      by simp
    then show ?thesis by blast
  qed
qed

lemma run_Plus_D:
  "rx_run (Atom p Plus # r) cur gs s = Some g \<Longrightarrow>
   \<exists>u v cur'. s = u @ v \<and> u \<noteq> [] \<and> list_all p u \<and> rx_run r cur' gs v = Some g"
proof (cases s)
  case Nil
  assume "rx_run (Atom p Plus # r) cur gs s = Some g"
  then show ?thesis using Nil by simp
next
  case (Cons c cs)
  assume a: "rx_run (Atom p Plus # r) cur gs s = Some g"
  then have pc: "p c" and "rx_run (Atom p Star # r) (push c cur) gs cs = Some g"
    using Cons by (auto split: if_splits)
  from run_Star_D[OF this(2)] obtain u v cur' where
    h: "cs = u @ v" "list_all p u" "rx_run r cur' gs v = Some g" by blast
  have "s = (c # u) @ v \<and> c # u \<noteq> [] \<and> list_all p (c # u)" using h pc Cons by simp
  then show ?thesis using h(3) by blast
qed

lemma run_StarLazy_D:
  "rx_run (Atom p StarLazy # r) cur gs s = Some g \<Longrightarrow>
   \<exists>u v cur'. s = u @ v \<and> list_all p u \<and> rx_run r cur' gs v = Some g"
proof (induction s arbitrary: cur)
  case Nil
  then have "rx_run r cur gs [] = Some g" by (auto split: option.splits)
  then show ?case by (intro exI[of _ "[]"]) auto
next
  case (Cons c cs)
  show ?case
  proof (cases "rx_run r cur gs (c # cs)")
    case (Some g')
    then have "rx_run r cur gs (c # cs) = Some g" using Cons.prems by simp
    then have "c # cs = [] @ (c # cs) \<and> list_all p [] \<and> rx_run r cur gs (c # cs) = Some g"
      by simp
    then show ?thesis by blast
  next
    case None
    then have pc: "p c" and "rx_run (Atom p StarLazy # r) (push c cur) gs cs = Some g"
      using Cons.prems by (auto split: if_splits)
    from Cons.IH[OF this(2)] obtain u v cur' where
      h: "cs = u @ v" "list_all p u" "rx_run r cur' gs v = Some g" by blast
    have "c # cs = (c # u) @ v \<and> list_all p (c # u)" using h pc by simp
    then show ?thesis using h(3) by blast
  qed
qed

lemma run_PlusLazy_D:
  "rx_run (Atom p PlusLazy # r) cur gs s = Some g \<Longrightarrow>
   \<exists>u v cur'. s = u @ v \<and> u \<noteq> [] \<and> list_all p u \<and> rx_run r cur' gs v = Some g"
proof (cases s)
  case Nil
  assume "rx_run (Atom p PlusLazy # r) cur gs s = Some g"
  then show ?thesis using Nil by simp
next
  case (Cons c cs)
  assume a: "rx_run (Atom p PlusLazy # r) cur gs s = Some g"
  then have pc: "p c" and "rx_run (Atom p StarLazy # r) (push c cur) gs cs = Some g"
    using Cons by (auto split: if_splits)
  from run_StarLazy_D[OF this(2)] obtain u v cur' where
    h: "cs = u @ v" "list_all p u" "rx_run r cur' gs v = Some g" by blast
  have "s = (c # u) @ v \<and> c # u \<noteq> [] \<and> list_all p (c # u)" using h pc Cons by simp
  then show ?thesis using h(3) by blast
qed

lemma run_Eos_D: "rx_run [Eos] cur gs s = Some g \<Longrightarrow> list_all is_space s"
  by (auto simp: is_space_def split: if_splits)

lemma BORN_RE_TAIL:
  "BORN_RE = lit '','' @ [Atom is_space Star, GOpen, Atom (\<lambda>c. c \<noteq> CHR '','') PlusLazy] @ BORN_TAIL"
  by (simp add: BORN_RE_def BORN_TAIL_def)

lemma born_tail_D:
  assumes "rx_run BORN_TAIL cur gs s = Some g"
  shows "\<exists>w1 U w3. s = w1 @ CHR ''('' # U @ CHR '')'' # w3 \<and> list_all is_space w1 \<and>
           U \<noteq> [] \<and> list_all is_upper U \<and> list_all is_space w3"
proof -
  let ?r1 = "lit ''('' @ [GOpen, Atom is_upper Plus, GClose] @ lit '')'' @ [Atom is_space Star, Eos]"
  have a: "rx_run (Atom is_space Star # ?r1) None (gs @ [case cur of None \<Rightarrow> [] | Some b \<Rightarrow> b]) s = Some g"
    using assms by (simp add: BORN_TAIL_def)
  from run_Star_D[OF a] obtain w1 s1 c1 where
    h1: "s = w1 @ s1" "list_all is_space w1" "rx_run ?r1 c1 (gs @ [case cur of None \<Rightarrow> [] | Some b \<Rightarrow> b]) s1 = Some g"
    by blast
  let ?gs1 = "gs @ [case cur of None \<Rightarrow> [] | Some b \<Rightarrow> b]"
  have "rx_run (Atom (\<lambda>x. x = CHR ''('') One #
      GOpen # Atom is_upper Plus # GClose # lit '')'' @ [Atom is_space Star, Eos]) c1 ?gs1 s1 = Some g"
    using h1(3) by (simp add: lit_def)
  from run_One_D[OF this] obtain s2 where
    h2: "s1 = CHR ''('' # s2"
      "rx_run (GOpen # Atom is_upper Plus # GClose # lit '')'' @ [Atom is_space Star, Eos])
         (push CHR ''('' c1) ?gs1 s2 = Some g"
    by blast
  have "rx_run (Atom is_upper Plus # GClose # lit '')'' @ [Atom is_space Star, Eos]) (Some []) ?gs1 s2 = Some g"
    using h2(2) by simp
  from run_Plus_D[OF this] obtain U s3 c3 where
    h3: "s2 = U @ s3" "U \<noteq> []" "list_all is_upper U"
      "rx_run (GClose # lit '')'' @ [Atom is_space Star, Eos]) c3 ?gs1 s3 = Some g"
    by blast
  let ?gs2 = "?gs1 @ [case c3 of None \<Rightarrow> [] | Some b \<Rightarrow> b]"
  have "rx_run (Atom (\<lambda>x. x = CHR '')'') One # [Atom is_space Star, Eos]) None ?gs2 s3 = Some g"
    using h3(4) by (simp add: lit_def)
  from run_One_D[OF this] obtain s4 where
    h4: "s3 = CHR '')'' # s4" "rx_run [Atom is_space Star, Eos] (push CHR '')'' None) ?gs2 s4 = Some g"
    by blast
  from run_Star_D[OF h4(2)] obtain w3 s5 c5 where
    h5: "s4 = w3 @ s5" "list_all is_space w3" "rx_run [Eos] c5 ?gs2 s5 = Some g"
    by blast
  have h6: "list_all is_space s5" using run_Eos_D[OF h5(3)] .
  have "s = w1 @ CHR ''('' # U @ CHR '')'' # (w3 @ s5)"
    using h1(1) h2(1) h3(1) h4(1) h5(1) by simp
  moreover have "list_all is_space (w3 @ s5)" using h5(2) h6 by simp
  ultimately show ?thesis using h1(2) h3(2,3) by blast
qed

lemma born_re_D:
  assumes "rx_run BORN_RE None [] s = Some g"
  shows "\<exists>w0 X w1 U w3. s = CHR '','' # w0 @ X @ w1 @ CHR ''('' # U @ CHR '')'' # w3 \<and>
           list_all is_space w0 \<and> X \<noteq> [] \<and> list_all (\<lambda>c. c \<noteq> CHR '','') X \<and>
           list_all is_space w1 \<and> U \<noteq> [] \<and> list_all is_upper U \<and> list_all is_space w3"
proof -
  let ?r0 = "[Atom is_space Star, GOpen, Atom (\<lambda>c. c \<noteq> CHR '','') PlusLazy] @ BORN_TAIL"
  have "rx_run (Atom (\<lambda>x. x = CHR '','') One # ?r0) None [] s = Some g"
    using assms unfolding BORN_RE_TAIL by (simp add: lit_def)
  from run_One_D[OF this] obtain s0 where
    h0: "s = CHR '','' # s0" "rx_run ?r0 (push CHR '','' None) [] s0 = Some g"
    by blast
  have "rx_run (Atom is_space Star # GOpen # Atom (\<lambda>c. c \<noteq> CHR '','') PlusLazy # BORN_TAIL)
      (push CHR '','' None) [] s0 = Some g"
    using h0(2) by simp
  from run_Star_D[OF this] obtain w0 s1 c1 where
    h1: "s0 = w0 @ s1" "list_all is_space w0"
      "rx_run (GOpen # Atom (\<lambda>c. c \<noteq> CHR '','') PlusLazy # BORN_TAIL) c1 [] s1 = Some g"
    by blast
  have "rx_run (Atom (\<lambda>c. c \<noteq> CHR '','') PlusLazy # BORN_TAIL) (Some []) [] s1 = Some g"
    using h1(3) by simp
  from run_PlusLazy_D[OF this] obtain X s2 c2 where
    h2: "s1 = X @ s2" "X \<noteq> []" "list_all (\<lambda>c. c \<noteq> CHR '','') X" "rx_run BORN_TAIL c2 [] s2 = Some g"
    by blast
  from born_tail_D[OF h2(4)] obtain w1 U w3 where
    h3: "s2 = w1 @ CHR ''('' # U @ CHR '')'' # w3" "list_all is_space w1"
      "U \<noteq> []" "list_all is_upper U" "list_all is_space w3"
    by blast
  have "s = CHR '','' # w0 @ X @ w1 @ CHR ''('' # U @ CHR '')'' # w3"
    using h0(1) h1(1) h2(1) h3(1) by simp
  then show ?thesis using h1(2) h2(2,3) h3(2-5) by blast
qed


lemma star_path:
  "list_all p u \<Longrightarrow> v = [] \<or> \<not> p (hd v) \<Longrightarrow>
   rx_run r (map_option (\<lambda>b. b @ u) cur) gs v = Some g \<Longrightarrow>
   rx_run (Atom p Star # r) cur gs (u @ v) = Some g"
proof (induction u arbitrary: cur)
  case Nil
  have c: "map_option (\<lambda>b. b @ []) cur = cur" by (cases cur) simp_all
  show ?case using Nil c by (cases v) auto
next
  case (Cons c u)
  have "rx_run (Atom p Star # r) (push c cur) gs (u @ v) = Some g"
    using Cons.IH[of "push c cur"] Cons.prems by (simp add: push_grow)
  then show ?case using Cons.prems(1) by simp
qed

lemma plus_path:
  "u \<noteq> [] \<Longrightarrow> list_all p u \<Longrightarrow> v = [] \<or> \<not> p (hd v) \<Longrightarrow>
   rx_run r (map_option (\<lambda>b. b @ u) cur) gs v = Some g \<Longrightarrow>
   rx_run (Atom p Plus # r) cur gs (u @ v) = Some g"
proof (cases u)
  case Nil
  assume "u \<noteq> []"
  then show ?thesis using Nil by simp
next
  case (Cons c u')
  assume a: "list_all p u" "v = [] \<or> \<not> p (hd v)"
    "rx_run r (map_option (\<lambda>b. b @ u) cur) gs v = Some g"
  have "rx_run (Atom p Star # r) (push c cur) gs (u' @ v) = Some g"
    using star_path[of p u' v r "push c cur" gs g] a Cons by (simp add: push_grow)
  then show ?thesis using a(1) Cons by simp
qed

lemma lazy_path:
  "list_all p u \<Longrightarrow>
   (\<And>u1 u2. u = u1 @ u2 \<Longrightarrow> u2 \<noteq> [] \<Longrightarrow>
      rx_run r (map_option (\<lambda>b. b @ u1) cur) gs (u2 @ v) = None) \<Longrightarrow>
   rx_run r (map_option (\<lambda>b. b @ u) cur) gs v = Some g \<Longrightarrow>
   rx_run (Atom p StarLazy # r) cur gs (u @ v) = Some g"
proof (induction u arbitrary: cur)
  case Nil
  have c: "map_option (\<lambda>b. b @ []) cur = cur" by (cases cur) simp_all
  show ?case using Nil(3) c by simp
next
  case (Cons c u)
  have c0: "map_option (\<lambda>b. b @ []) cur = cur" by (cases cur) simp_all
  have n: "rx_run r cur gs (c # u @ v) = None"
    using Cons.prems(2)[of "[]" "c # u"] c0 by simp
  have f: "rx_run r (map_option (\<lambda>b. b @ u1) (push c cur)) gs (u2 @ v) = None"
    if "u = u1 @ u2" "u2 \<noteq> []" for u1 u2
    using Cons.prems(2)[of "c # u1" u2] that by (simp add: push_grow)
  have "rx_run (Atom p StarLazy # r) (push c cur) gs (u @ v) = Some g"
    using Cons.IH[of "push c cur"] Cons.prems(1,3) f by (simp add: push_grow)
  then show ?case using n Cons.prems(1) by simp
qed

lemma last_occurrence:
  "c \<notin> set B \<Longrightarrow> c \<notin> set B' \<Longrightarrow> A @ c # B = A' @ c # B' \<Longrightarrow> A = A'"
proof (induction A arbitrary: A')
  case Nil
  show ?case
  proof (cases A')
    case (Cons a A'')
    with Nil.prems(3) have "B = A'' @ c # B'" by simp
    then show ?thesis using Nil.prems(1) by simp
  qed simp
next
  case (Cons a A)
  show ?case
  proof (cases A')
    case Nil
    with Cons.prems(3) have "B' = A @ c # B" by simp
    then show ?thesis using Cons.prems(2) by simp
  next
    case (Cons a' A'')
    with Cons.prems(3) have "a = a'" "A @ c # B = A'' @ c # B'" by simp_all
    then show ?thesis using Cons.IH[OF Cons.prems(1,2)] Cons by simp
  qed
qed

lemma space_is_no_mark: "is_space c \<Longrightarrow> c \<noteq> CHR '','' \<and> c \<noteq> CHR ''(''"
  by (auto simp: is_space_def)

lemma upper_is_no_mark: "is_upper c \<Longrightarrow> c \<noteq> CHR '','' \<and> c \<noteq> CHR ''(''"
  by (auto simp: is_upper_def)

lemma no_paren: "list_all is_upper U \<Longrightarrow> list_all is_space w \<Longrightarrow> CHR ''('' \<notin> set (U @ CHR '')'' # w)"
  using space_is_no_mark upper_is_no_mark by (auto simp: list_all_iff)

lemma born_tail_fails:
  assumes "u2 \<noteq> []" "\<not> is_space (last u2)" "list_all is_space ws2" "list_all is_upper code"
    "list_all is_space ws3"
  shows "rx_run BORN_TAIL cur gs (u2 @ ws2 @ CHR ''('' # code @ CHR '')'' # ws3) = None"
proof (cases "rx_run BORN_TAIL cur gs (u2 @ ws2 @ CHR ''('' # code @ CHR '')'' # ws3)")
  case None
  then show ?thesis .
next
  case (Some g)
  from born_tail_D[OF Some] obtain w1 U w3 where
    h: "u2 @ ws2 @ CHR ''('' # code @ CHR '')'' # ws3 = w1 @ CHR ''('' # U @ CHR '')'' # w3"
      "list_all is_space w1" "list_all is_upper U" "list_all is_space w3"
    by blast
  have "(u2 @ ws2) @ CHR ''('' # (code @ CHR '')'' # ws3) = w1 @ CHR ''('' # (U @ CHR '')'' # w3)"
    using h(1) by simp
  from last_occurrence[OF no_paren[OF assms(4,5)] no_paren[OF h(3,4)] this]
  have "u2 @ ws2 = w1" .
  then have "list_all is_space u2" using h(2) by auto
  then have "is_space (last u2)" using assms(1) by (simp add: list_all_iff)
  then show ?thesis using assms(2) by simp
qed

lemma born_tail_succeeds:
  assumes "list_all is_space ws2" "code \<noteq> []" "list_all is_upper code" "list_all is_space ws3"
  shows "rx_run BORN_TAIL (Some place) [] (ws2 @ CHR ''('' # code @ CHR '')'' # ws3) = Some [place, code]"
proof -
  have sp: "\<not> is_space CHR ''(''" "\<not> is_upper CHR '')''" by (simp_all add: is_space_def is_upper_def)
  have e0: "rx_run [Eos] (map_option (\<lambda>b. b @ ws3) None) [place, code] [] = Some [place, code]"
    by simp
  have e: "rx_run [Atom is_space Star, Eos] None [place, code] (ws3 @ []) = Some [place, code]"
    using assms(4) _ e0 by (rule star_path) simp
  then have e': "rx_run [Atom is_space Star, Eos] None [place, code] ws3 = Some [place, code]"
    by (simp del: rx_run.simps)
  have d0: "rx_run (GClose # lit '')'' @ [Atom is_space Star, Eos]) (map_option (\<lambda>b. b @ code) (Some []))
      [place] (CHR '')'' # ws3) = Some [place, code]"
    using e' by (simp add: lit_def push_def del: rx_run.simps(8))
  have d: "rx_run (Atom is_upper Plus # GClose # lit '')'' @ [Atom is_space Star, Eos]) (Some [])
      [place] (code @ CHR '')'' # ws3) = Some [place, code]"
    using assms(2,3) _ d0 by (rule plus_path) (simp add: sp)
  have c: "rx_run (lit ''('' @ [GOpen, Atom is_upper Plus, GClose] @ lit '')'' @ [Atom is_space Star, Eos])
      (map_option (\<lambda>b. b @ ws2) None) [place] (CHR ''('' # code @ CHR '')'' # ws3) = Some [place, code]"
    using d by (simp add: lit_def push_def del: rx_run.simps(9))
  have "rx_run (Atom is_space Star # lit ''('' @ [GOpen, Atom is_upper Plus, GClose] @ lit '')'' @
      [Atom is_space Star, Eos]) None [place] (ws2 @ CHR ''('' # code @ CHR '')'' # ws3) = Some [place, code]"
    using assms(1) _ c by (rule star_path) (simp add: sp)
  then show ?thesis by (simp add: BORN_TAIL_def del: rx_run.simps(8))
qed

lemma born_re_succeeds:
  assumes "list_all is_space ws1" "place \<noteq> []" "CHR '','' \<notin> set place"
    "\<not> is_space (hd place)" "\<not> is_space (last place)"
    "list_all is_space ws2" "code \<noteq> []" "list_all is_upper code" "list_all is_space ws3"
  shows "rx_run BORN_RE None [] (CHR '','' # ws1 @ place @ ws2 @ CHR ''('' # code @ CHR '')'' # ws3) =
           Some [place, code]"
proof -
  let ?rest = "ws2 @ CHR ''('' # code @ CHR '')'' # ws3"
  obtain c0 p' where pl: "place = c0 # p'" using assms(2) by (cases place) auto
  have nc: "list_all (\<lambda>c. c \<noteq> CHR '','') p'" "c0 \<noteq> CHR '',''"
    using assms(3) pl by (auto simp: list_all_iff)
  have fail: "rx_run BORN_TAIL (map_option (\<lambda>b. b @ u1) (Some [c0])) [] (u2 @ ?rest) = None"
    if "p' = u1 @ u2" "u2 \<noteq> []" for u1 u2
  proof -
    have "last u2 = last place" using that pl by simp
    then show ?thesis using born_tail_fails[OF that(2) _ assms(6,8,9)] assms(5) by simp
  qed
  have "rx_run BORN_TAIL (map_option (\<lambda>b. b @ p') (Some [c0])) [] ?rest = Some [place, code]"
    using born_tail_succeeds[OF assms(6-9), of place] pl by simp
  from lazy_path[OF nc(1) fail this]
  have l: "rx_run (Atom (\<lambda>c. c \<noteq> CHR '','') StarLazy # BORN_TAIL) (Some [c0]) [] (p' @ ?rest) =
      Some [place, code]" .
  have g: "rx_run (GOpen # Atom (\<lambda>c. c \<noteq> CHR '','') PlusLazy # BORN_TAIL)
      (map_option (\<lambda>b. b @ ws1) None) [] (place @ ?rest) = Some [place, code]"
    using l nc(2) pl by (simp add: push_def del: rx_run.simps(10))
  have h: "place @ ?rest = [] \<or> \<not> is_space (hd (place @ ?rest))"
    using assms(4) pl by simp
  have "rx_run (Atom is_space Star # GOpen # Atom (\<lambda>c. c \<noteq> CHR '','') PlusLazy # BORN_TAIL) None []
      (ws1 @ place @ ?rest) = Some [place, code]"
    using assms(1) h g by (rule star_path)
  then show ?thesis unfolding BORN_RE_TAIL by (simp add: lit_def push_def del: rx_run.simps(8))
qed

lemma spaces_no_comma: "list_all is_space w \<Longrightarrow> CHR '','' \<notin> set w"
  using space_is_no_mark by (auto simp: list_all_iff)

lemma uppers_no_comma: "list_all is_upper w \<Longrightarrow> CHR '','' \<notin> set w"
  using upper_is_no_mark by (auto simp: list_all_iff)

lemma born_re_no_later_comma:
  assumes "rx_run BORN_RE None [] s = Some g"
  shows "CHR '','' \<notin> set (tl s)"
proof -
  from born_re_D[OF assms] obtain w0 X w1 U w3 where
    h: "s = CHR '','' # w0 @ X @ w1 @ CHR ''('' # U @ CHR '')'' # w3"
      "list_all is_space w0" "list_all (\<lambda>c. c \<noteq> CHR '','') X"
      "list_all is_space w1" "list_all is_upper U" "list_all is_space w3"
    by blast
  have "CHR '','' \<notin> set w0" "CHR '','' \<notin> set w1" "CHR '','' \<notin> set w3"
    using h(2,4,6) by (simp_all add: spaces_no_comma)
  moreover have "CHR '','' \<notin> set U" using h(5) by (rule uppers_no_comma)
  moreover have "CHR '','' \<notin> set X" using h(3) by (auto simp: list_all_iff)
  ultimately show ?thesis unfolding h(1) by simp
qed

lemma born_search_skip:
  "rx_search BORN_RE (pre @ CHR '','' # rest) = rx_search BORN_RE (CHR '','' # rest)"
proof (induction pre)
  case Nil
  show ?case by simp
next
  case (Cons c pre)
  have "rx_run BORN_RE None [] (c # pre @ CHR '','' # rest) = None"
  proof (cases "rx_run BORN_RE None [] (c # pre @ CHR '','' # rest)")
    case (Some g)
    from born_re_no_later_comma[OF Some] show ?thesis by simp
  qed simp
  then show ?case using Cons.IH by simp
qed

lemma born_search_no_comma: "CHR '','' \<notin> set s \<Longrightarrow> rx_search BORN_RE s = None"
proof (induction s)
  case Nil
  show ?case by (simp add: BORN_RE_def lit_def del: rx_run.simps(8))
next
  case (Cons c s)
  have "c \<noteq> CHR '',''" using Cons.prems by auto
  then have "rx_run BORN_RE None [] (c # s) = None"
    by (simp add: BORN_RE_def lit_def del: rx_run.simps(8))
  then show ?case using Cons by simp
qed

lemma born_search_D:
  "rx_search BORN_RE s = Some g \<Longrightarrow>
   \<exists>pre w0 X w1 U w3. s = pre @ CHR '','' # w0 @ X @ w1 @ CHR ''('' # U @ CHR '')'' # w3 \<and>
           list_all is_space w0 \<and> X \<noteq> [] \<and> list_all (\<lambda>c. c \<noteq> CHR '','') X \<and>
           list_all is_space w1 \<and> U \<noteq> [] \<and> list_all is_upper U \<and> list_all is_space w3"
proof (induction s)
  case Nil
  then have "rx_run BORN_RE None [] [] = Some g" by simp
  from born_re_D[OF this] show ?case by simp
next
  case (Cons c s)
  show ?case
  proof (cases "rx_run BORN_RE None [] (c # s)")
    case (Some g')
    from born_re_D[OF Some] obtain w0 X w1 U w3 where
      h: "c # s = CHR '','' # w0 @ X @ w1 @ CHR ''('' # U @ CHR '')'' # w3 \<and>
           list_all is_space w0 \<and> X \<noteq> [] \<and> list_all (\<lambda>c. c \<noteq> CHR '','') X \<and>
           list_all is_space w1 \<and> U \<noteq> [] \<and> list_all is_upper U \<and> list_all is_space w3"
      by blast
    then have "c # s = [] @ CHR '','' # w0 @ X @ w1 @ CHR ''('' # U @ CHR '')'' # w3" by simp
    with h show ?thesis by blast
  next
    case None
    then have "rx_search BORN_RE s = Some g" using Cons.prems by simp
    from Cons.IH[OF this] obtain pre w0 X w1 U w3 where
      h: "s = pre @ CHR '','' # w0 @ X @ w1 @ CHR ''('' # U @ CHR '')'' # w3 \<and>
           list_all is_space w0 \<and> X \<noteq> [] \<and> list_all (\<lambda>c. c \<noteq> CHR '','') X \<and>
           list_all is_space w1 \<and> U \<noteq> [] \<and> list_all is_upper U \<and> list_all is_space w3"
      by blast
    then have "c # s = (c # pre) @ CHR '','' # w0 @ X @ w1 @ CHR ''('' # U @ CHR '')'' # w3" by simp
    with h show ?thesis by blast
  qed
qed

lemma born_search_succeeds:
  assumes "list_all is_space ws1" "place \<noteq> []" "CHR '','' \<notin> set place"
    "\<not> is_space (hd place)" "\<not> is_space (last place)"
    "list_all is_space ws2" "code \<noteq> []" "list_all is_upper code" "list_all is_space ws3"
  shows "rx_search BORN_RE (pre @ CHR '','' # ws1 @ place @ ws2 @ CHR ''('' # code @ CHR '')'' # ws3) =
           Some [place, code]"
  unfolding born_search_skip using born_re_succeeds[OF assms] by simp

lemma upper_is_no_space: "is_upper c \<Longrightarrow> \<not> is_space c"
  by (auto simp: is_upper_def is_space_def)

lemma strip_code: "code \<noteq> [] \<Longrightarrow> list_all is_upper code \<Longrightarrow> strip code = code"
proof -
  assume a: "code \<noteq> []" "list_all is_upper code"
  have "is_upper (hd code)" "is_upper (last code)" using a by (simp_all add: list_all_iff)
  then show ?thesis using a(1) upper_is_no_space by (intro strip_id) auto
qed


text \<open>
  Claim C8. \<open>born_state\<close> searches the \<open>Born\<close> field for \<open>_BORN_RE\<close> and returns the
  first group stripped, or \<open>Unknown\<close> without a match: the birth place
  \<open>12 May 1990 in Helena, Montana (USA)\<close> gives \<open>Montana\<close>, and \<open>in Paris (FRA)\<close>, which
  has no comma, gives \<open>Unknown\<close>; \<open>parse_born\<close> finds the same state and the country
  code on the first, and nothing on the second. In general, when the field ends in a
  comma, a place without comma and without whitespace at its ends, and a country code
  of capitals in parentheses, whitespace allowed between them and at the end, the
  result is the place. And whenever the result is not \<open>Unknown\<close>, the field ends in a
  comma, a non-empty part without comma, capitals in parentheses, and whitespace.
\<close>

theorem born_state_derivation:
  "born_state [(''Born'', ''12 May 1990 in Helena, Montana (USA)'')] = ''Montana'' \<and>
   born_state [(''Born'', ''in Paris (FRA)'')] = ''Unknown'' \<and>
   parse_born ''12 May 1990 in Helena, Montana (USA)'' = (Some ''Montana'', Some ''USA'') \<and>
   parse_born ''in Paris (FRA)'' = (None, None) \<and>
   (field r ''Born'' = pre @ '','' @ ws1 @ place @ ws2 @ ''('' @ code @ '')'' @ ws3 \<and>
    list_all is_space ws1 \<and> place \<noteq> [] \<and> CHR '','' \<notin> set place \<and>
    \<not> is_space (hd place) \<and> \<not> is_space (last place) \<and> list_all is_space ws2 \<and>
    code \<noteq> [] \<and> list_all is_upper code \<and> list_all is_space ws3 \<longrightarrow>
      born_state r = place \<and> parse_born (field r ''Born'') = (Some place, Some code)) \<and>
   (born_state r \<noteq> ''Unknown'' \<longrightarrow>
      (\<exists>pre P code ws3. field r ''Born'' = pre @ '','' @ P @ ''('' @ code @ '')'' @ ws3 \<and>
         P \<noteq> [] \<and> CHR '','' \<notin> set P \<and> code \<noteq> [] \<and> list_all is_upper code \<and>
         list_all is_space ws3))"
proof -
  have ex: "born_state [(''Born'', ''12 May 1990 in Helena, Montana (USA)'')] = ''Montana'' \<and>
   born_state [(''Born'', ''in Paris (FRA)'')] = ''Unknown'' \<and>
   parse_born ''12 May 1990 in Helena, Montana (USA)'' = (Some ''Montana'', Some ''USA'') \<and>
   parse_born ''in Paris (FRA)'' = (None, None)"
    by (simp add: born_state_def parse_born_def field_def patterns char_classes strip_def)
  have pos: "born_state r = place \<and> parse_born (field r ''Born'') = (Some place, Some code)"
    if h: "field r ''Born'' = pre @ '','' @ ws1 @ place @ ws2 @ ''('' @ code @ '')'' @ ws3 \<and>
    list_all is_space ws1 \<and> place \<noteq> [] \<and> CHR '','' \<notin> set place \<and>
    \<not> is_space (hd place) \<and> \<not> is_space (last place) \<and> list_all is_space ws2 \<and>
    code \<noteq> [] \<and> list_all is_upper code \<and> list_all is_space ws3"
  proof -
    have b: "field r ''Born'' = pre @ CHR '','' # ws1 @ place @ ws2 @ CHR ''('' # code @ CHR '')'' # ws3"
      using h by simp
    have m: "rx_search BORN_RE (field r ''Born'') = Some [place, code]"
      unfolding b using h by (intro born_search_succeeds) simp_all
    have sp: "strip place = place" using h by (intro strip_id) simp_all
    have sc: "strip code = code" using h by (intro strip_code) simp_all
    have ne: "field r ''Born'' \<noteq> []" unfolding b by simp
    show ?thesis using m sp sc ne by (simp add: born_state_def parse_born_def group_def)
  qed
  have snd: "\<exists>pre P code ws3. field r ''Born'' = pre @ '','' @ P @ ''('' @ code @ '')'' @ ws3 \<and>
         P \<noteq> [] \<and> CHR '','' \<notin> set P \<and> code \<noteq> [] \<and> list_all is_upper code \<and>
         list_all is_space ws3"
    if h: "born_state r \<noteq> ''Unknown''"
  proof -
    obtain g where g: "rx_search BORN_RE (field r ''Born'') = Some g"
      using h by (cases "rx_search BORN_RE (field r ''Born'')") (simp_all add: born_state_def)
    from born_search_D[OF g] obtain pre w0 X w1 U w3 where
      d: "field r ''Born'' = pre @ CHR '','' # w0 @ X @ w1 @ CHR ''('' # U @ CHR '')'' # w3"
        "list_all is_space w0" "X \<noteq> []" "list_all (\<lambda>c. c \<noteq> CHR '','') X"
        "list_all is_space w1" "U \<noteq> []" "list_all is_upper U" "list_all is_space w3"
      by blast
    have 1: "field r ''Born'' = pre @ '','' @ (w0 @ X @ w1) @ ''('' @ U @ '')'' @ w3"
      using d(1) by simp
    have 2: "w0 @ X @ w1 \<noteq> []" using d(3) by simp
    have 3: "CHR '','' \<notin> set (w0 @ X @ w1)"
      using spaces_no_comma[OF d(2)] spaces_no_comma[OF d(5)] d(4) by (auto simp: list_all_iff)
    from 1 2 3 d(6,7,8) show ?thesis by blast
  qed
  from ex pos snd show ?thesis by blast
qed

theorem born_state_derivation_witness:
  "born_state [(''Born'', ''3 June 1985 in Boise,  New  Idaho (USA) '')] = ''New  Idaho''"
proof -
  note t = born_state_derivation[where r = "[(''Born'', ''3 June 1985 in Boise,  New  Idaho (USA) '')]"
      and pre = "''3 June 1985 in Boise''" and ?ws1.0 = "''  ''" and place = "''New  Idaho''"
      and ?ws2.0 = "'' ''" and code = "''USA''" and ?ws3.0 = "'' ''"]
  have h: "field [(''Born'', ''3 June 1985 in Boise,  New  Idaho (USA) '')] ''Born'' =
      ''3 June 1985 in Boise'' @ '','' @ ''  '' @ ''New  Idaho'' @ '' '' @ ''('' @ ''USA'' @ '')'' @ '' '' \<and>
    list_all is_space ''  '' \<and> ''New  Idaho'' \<noteq> [] \<and> CHR '','' \<notin> set ''New  Idaho'' \<and>
    \<not> is_space (hd ''New  Idaho'') \<and> \<not> is_space (last ''New  Idaho'') \<and> list_all is_space '' '' \<and>
    ''USA'' \<noteq> [] \<and> list_all is_upper ''USA'' \<and> list_all is_space '' ''"
    by (simp add: field_def char_classes)
  from t h show ?thesis by blast
qed

end
